theory Spec2Isabelle
  imports Main
begin

section \<open>Python values and exceptions\<close>

text \<open>
  The export module \<^verbatim>\<open>rm_export.py\<close> is embedded with explicit state passing. A Python
  exception is a value of type \<open>error\<close>; a method that mutates \<open>self\<close> and the outside
  world returns the exception it raised (if any) together with the object and the world
  as they are at that moment, because Python keeps every mutation made before a raise.
  Paths use the POSIX separator (\<^verbatim>\<open>os.sep = "/"\<close>).
\<close>

datatype error =
    RibmosaicError string
  | AttributeError
  | TypeError
  | ValueError
  | IOError
  | OSError
  | IndexError
  | RegexError
  | ProviderError
  | ExportCanceled

text \<open>Text handled by an archive is \<^verbatim>\<open>str\<close> in text mode and \<^verbatim>\<open>bytes\<close> in gzip mode.\<close>

datatype pytext = Str string | Bytes string

fun payload :: "pytext \<Rightarrow> string" where
  "payload (Str s) = s"
| "payload (Bytes s) = s"

text \<open>Python truth value of a text (\<^verbatim>\<open>if text:\<close>).\<close>

definition truthy :: "pytext \<Rightarrow> bool" where
  "truthy t = (payload t \<noteq> [])"

text \<open>\<^verbatim>\<open>text.encode()\<close>: only \<^verbatim>\<open>str\<close> has the method.\<close>

fun encode :: "pytext \<Rightarrow> error + pytext" where
  "encode (Str s) = Inr (Bytes s)"
| "encode (Bytes s) = Inl AttributeError"

text \<open>\<^verbatim>\<open>int(s)\<close> on a decimal string with optional sign and surrounding blanks.\<close>

fun index_of :: "'a \<Rightarrow> 'a list \<Rightarrow> nat option" where
  "index_of x [] = None"
| "index_of x (y # ys) = (if x = y then Some 0 else map_option Suc (index_of x ys))"

fun digits_value :: "nat \<Rightarrow> string \<Rightarrow> nat option" where
  "digits_value acc [] = Some acc"
| "digits_value acc (c # cs) =
     (case index_of c ''0123456789'' of
        None \<Rightarrow> None
      | Some d \<Rightarrow> digits_value (10 * acc + d) cs)"

definition strip_blanks :: "string \<Rightarrow> string" where
  "strip_blanks s =
     rev (dropWhile (\<lambda>c. c = CHR '' '') (rev (dropWhile (\<lambda>c. c = CHR '' '') s)))"

definition unsigned_int :: "string \<Rightarrow> error + int" where
  "unsigned_int ds =
     (if ds = [] then Inl ValueError
      else case digits_value 0 ds of None \<Rightarrow> Inl ValueError | Some n \<Rightarrow> Inr (int n))"

definition py_int :: "string \<Rightarrow> error + int" where
  "py_int s =
     (case strip_blanks s of
        [] \<Rightarrow> Inl ValueError
      | c # cs \<Rightarrow>
          if c = CHR ''-'' then (case unsigned_int cs of Inl e \<Rightarrow> Inl e | Inr n \<Rightarrow> Inr (- n))
          else if c = CHR ''+'' then unsigned_int cs
          else unsigned_int (c # cs))"

section \<open>The outside world: files, handles, list objects, processes\<close>

datatype mode = ModeR | ModeW | ModeA

text \<open>
  An open file object. Several archives may hold a reference to the same file object, so
  file objects live in a store (the list \<open>handles\<close>) and an archive holds an index.
\<close>

record handle =
  h_path :: string
  h_mode :: mode
  h_gzip :: bool
  h_closed :: bool

text \<open>
  Calls that leave the program are recorded in a trace: spawning a shell, the two ways
  of signalling a process, and each entry into \<^verbatim>\<open>apply_regextargets\<close>.
\<close>

datatype event =
    EvSpawn string
  | EvKillpg nat
  | EvTerminate nat
  | EvRegexTargets string

text \<open>
  \<open>files\<close> maps a path to the (uncompressed) content of the file; \<open>exec_bits\<close> are the
  paths made executable by \<^verbatim>\<open>os.chmod\<close>; \<open>lists\<close> is the store of Python list objects
  (the regex rule lists, which archives share by reference); \<open>poll_results\<close> are the
  answers the operating system gives to the coming calls of \<^verbatim>\<open>Popen.poll()\<close> and
  \<open>break_requests\<close> says for each coming call of \<^verbatim>\<open>_test_break()\<close> whether the user has
  asked to cancel.
\<close>

record world =
  files :: "string \<rightharpoonup> string"
  exec_bits :: "string set"
  handles :: "handle list"
  lists :: "string list list"
  trace :: "event list"
  poll_results :: "int option list"
  break_requests :: "bool list"

definition new_handle :: "handle \<Rightarrow> world \<Rightarrow> nat \<times> world" where
  "new_handle h w = (length (handles w), w\<lparr>handles := handles w @ [h]\<rparr>)"

text \<open>\<^verbatim>\<open>open(filepath, mode)\<close> and \<^verbatim>\<open>gzip.open(filepath, mode)\<close>.\<close>

definition py_open :: "string \<Rightarrow> mode \<Rightarrow> bool \<Rightarrow> world \<Rightarrow> error + nat \<times> world" where
  "py_open p m gz w =
     (let h = \<lparr>h_path = p, h_mode = m, h_gzip = gz, h_closed = False\<rparr> in
      case m of
        ModeR \<Rightarrow> (case files w p of None \<Rightarrow> Inl IOError | Some c \<Rightarrow> Inr (new_handle h w))
      | ModeW \<Rightarrow> Inr (new_handle h (w\<lparr>files := (files w)(p \<mapsto> [])\<rparr>))
      | ModeA \<Rightarrow>
          (case files w p of
             None \<Rightarrow> Inr (new_handle h (w\<lparr>files := (files w)(p \<mapsto> [])\<rparr>))
           | Some c \<Rightarrow> Inr (new_handle h w)))"

text \<open>\<^verbatim>\<open>f.close()\<close>; closing a closed file object is allowed.\<close>

definition py_close :: "nat \<Rightarrow> world \<Rightarrow> world" where
  "py_close h w =
     (if h < length (handles w)
      then w\<lparr>handles := (handles w)[h := (handles w ! h)\<lparr>h_closed := True\<rparr>]\<rparr>
      else w)"

text \<open>
  \<^verbatim>\<open>f.write(text)\<close>: a closed file object raises \<^verbatim>\<open>ValueError\<close>, one opened for
  reading is not writable, a text file takes \<^verbatim>\<open>str\<close> and a gzip file takes \<^verbatim>\<open>bytes\<close>.
  Every writer of this module writes from the end of what it wrote before, so a write
  extends the file's content.
\<close>

definition py_write :: "nat \<Rightarrow> pytext \<Rightarrow> world \<Rightarrow> error + world" where
  "py_write h t w =
     (if \<not> h < length (handles w) then Inl ValueError
      else let f = handles w ! h in
        if h_closed f then Inl ValueError
        else if h_mode f = ModeR then Inl IOError
        else case (h_gzip f, t) of
               (False, Str s) \<Rightarrow>
                 Inr (w\<lparr>files := (files w)(h_path f \<mapsto>
                        (case files w (h_path f) of None \<Rightarrow> s | Some c \<Rightarrow> c @ s))\<rparr>)
             | (True, Bytes s) \<Rightarrow>
                 Inr (w\<lparr>files := (files w)(h_path f \<mapsto>
                        (case files w (h_path f) of None \<Rightarrow> s | Some c \<Rightarrow> c @ s))\<rparr>)
             | _ \<Rightarrow> Inl TypeError)"

text \<open>\<^verbatim>\<open>f.read()\<close> right after opening: the whole content.\<close>

definition py_read :: "nat \<Rightarrow> world \<Rightarrow> error + pytext" where
  "py_read h w =
     (if \<not> h < length (handles w) then Inl ValueError
      else let f = handles w ! h in
        if h_closed f then Inl ValueError
        else if h_mode f \<noteq> ModeR then Inl IOError
        else case files w (h_path f) of
               None \<Rightarrow> Inl IOError
             | Some c \<Rightarrow> Inr (if h_gzip f then Bytes c else Str c))"

text \<open>Python list objects: lookup, \<^verbatim>\<open>list(xs)\<close>, a list display, \<^verbatim>\<open>xs.append(x)\<close>.\<close>

definition get_list :: "world \<Rightarrow> nat \<Rightarrow> string list" where
  "get_list w r = (if r < length (lists w) then lists w ! r else [])"

definition list_new :: "string list \<Rightarrow> world \<Rightarrow> nat \<times> world" where
  "list_new xs w = (length (lists w), w\<lparr>lists := lists w @ [xs]\<rparr>)"

definition list_copy :: "nat \<Rightarrow> world \<Rightarrow> nat \<times> world" where
  "list_copy r w = list_new (get_list w r) w"

definition list_append :: "nat \<Rightarrow> string \<Rightarrow> world \<Rightarrow> world" where
  "list_append r x w = w\<lparr>lists := (lists w)[r := get_list w r @ [x]]\<rparr>"

text \<open>
  The two class attributes \<^verbatim>\<open>ExporterArchive._archive_regexes = []\<close> and
  \<^verbatim>\<open>ExporterArchive._target_regexes = []\<close> are the first two list objects of the store.
\<close>

definition class_archive_regexes :: nat where
  "class_archive_regexes = 0"

definition class_target_regexes :: nat where
  "class_target_regexes = 1"

definition initial_world :: world where
  "initial_world =
     \<lparr>files = Map.empty, exec_bits = {}, handles = [], lists = [[], []], trace = [],
      poll_results = [], break_requests = []\<rparr>"

section \<open>Collaborators outside the module\<close>

text \<open>
  The scene properties the module reads (\<^verbatim>\<open>bpy\<close> supplies them).
\<close>

record scene =
  ribmosaic_interactive :: bool
  ribmosaic_compileshd :: bool
  ribmosaic_optimizetex :: bool
  ribmosaic_renderrib :: bool
  frame_start :: int
  frame_end :: int
  frame_step :: int
  frame_current :: int

text \<open>
  The fields of \<^verbatim>\<open>rm_context.ExportContext\<close> that the archive classes use. The class
  itself is not part of the sources at hand.
\<close>

record export_context =
  pointer_datablock :: "scene option"
  archive_path :: string
  archive_name :: string
  target_path :: string
  target_name :: string

definition default_context :: export_context where
  "default_context =
     \<lparr>pointer_datablock = None, archive_path = [], archive_name = [],
      target_path = [], target_name = []\<rparr>"

text \<open>
  What the module asks of its collaborators, taken as parameters: the pipeline manager
  (\<open>list_elements\<close>, \<open>get_attr\<close> with the XML path, the attribute and the default,
  \<open>get_text\<close>; the latter two resolve links against the calling object and may raise),
  the regular expression engine (\<open>re_sub pattern replacement text count\<close> stands for
  \<^verbatim>\<open>re.sub(pattern, replacement, text, count, re.MULTILINE)\<close>), \<^verbatim>\<open>os.listdir\<close> (\<open>None\<close>
  when it raises), \<^verbatim>\<open>eval\<close> read as a truth value, \<^verbatim>\<open>subprocess.Popen\<close> (the flag says
  whether \<^verbatim>\<open>preexec_fn=os.setsid\<close> is passed; the result is the process id, \<open>None\<close> when
  it raises), and whether \<^verbatim>\<open>os.killpg\<close> and \<^verbatim>\<open>Popen.terminate\<close> succeed on a process.
\<close>

record env =
  list_elements :: "string \<Rightarrow> string list"
  get_attr :: "export_context \<Rightarrow> string \<Rightarrow> string \<Rightarrow> string \<Rightarrow> error + string"
  get_text :: "export_context \<Rightarrow> string \<Rightarrow> error + string"
  re_sub :: "string \<Rightarrow> string \<Rightarrow> string \<Rightarrow> int \<Rightarrow> error + string"
  listdir :: "string \<Rightarrow> string list option"
  py_eval :: "string \<Rightarrow> error + bool"
  popen :: "string \<Rightarrow> bool \<Rightarrow> nat option"
  killpg_ok :: "nat \<Rightarrow> bool"
  terminate_ok :: "nat \<Rightarrow> bool"

text \<open>
  \<^verbatim>\<open>re.sub\<close> takes pattern, replacement and text of one kind, all \<^verbatim>\<open>str\<close> or all
  \<^verbatim>\<open>bytes\<close>, and returns that kind.
\<close>

fun py_re_sub :: "env \<Rightarrow> pytext \<Rightarrow> pytext \<Rightarrow> pytext \<Rightarrow> int \<Rightarrow> error + pytext" where
  "py_re_sub E (Str p) (Str r) (Str t) n =
     (case re_sub E p r t n of Inl e \<Rightarrow> Inl e | Inr t' \<Rightarrow> Inr (Str t'))"
| "py_re_sub E (Bytes p) (Bytes r) (Bytes t) n =
     (case re_sub E p r t n of Inl e \<Rightarrow> Inl e | Inr t' \<Rightarrow> Inr (Bytes t'))"
| "py_re_sub E p r t n = Inl TypeError"

text \<open>
  Modelled from the spec: \<^verbatim>\<open>ExportContext._test_break\<close> of \<^verbatim>\<open>rm_context.py\<close> is missing;
  the spec says of it only that it checks for a cancellation requested by the user, and
  its callers expect it to raise then. Each call reads the next entry of
  \<open>break_requests\<close>.
\<close>

definition test_break :: "world \<Rightarrow> error option \<times> world" where
  "test_break w =
     (case break_requests w of
        [] \<Rightarrow> (None, w)
      | b # bs \<Rightarrow> ((if b then Some ExportCanceled else None), w\<lparr>break_requests := bs\<rparr>))"

section \<open>ExporterArchive\<close>

text \<open>
  The attributes of an \<^verbatim>\<open>ExporterArchive\<close> object. \<open>pointer_file\<close> and \<open>pointer_cache\<close>
  refer to file objects of the store, \<open>archive_regexes\<close> and \<open>target_regexes\<close> to list
  objects of the store (\<^verbatim>\<open>_pointer_file\<close>, \<^verbatim>\<open>_pointer_cache\<close>, \<^verbatim>\<open>_archive_regexes\<close> and
  \<^verbatim>\<open>_target_regexes\<close> in the source).
\<close>

record archive =
  ctx :: export_context
  is_root :: bool
  is_gzip :: bool
  is_exec :: bool
  pointer_file :: "nat option"
  pointer_cache :: "nat option"
  archive_regexes :: nat
  target_regexes :: nat

text \<open>
  The \<^verbatim>\<open>export_object\<close> argument of the constructors: \<^verbatim>\<open>None\<close>, an export context that is
  no file object, or an archive (an object whose \<^verbatim>\<open>is_file\<close> is true).
\<close>

datatype export_object = PyNone | Ctx export_context | File archive

text \<open>
  Modelled from the spec: \<^verbatim>\<open>ExportContext.__init__\<close> of \<^verbatim>\<open>rm_context.py\<close> is missing;
  by the spec a nested context copies the scalar fields of its parent.
\<close>

definition ExportContext_init :: "export_object \<Rightarrow> export_context" where
  "ExportContext_init eo =
     (case eo of PyNone \<Rightarrow> default_context | Ctx c \<Rightarrow> c | File p \<Rightarrow> ctx p)"

text \<open>
  \<^verbatim>\<open>ExporterArchive.__init__\<close>. From a file object every attribute is taken over by
  \<^verbatim>\<open>getattr\<close>, the two rule lists by reference; otherwise the object gets copies of the
  class's two lists.
\<close>

definition ExporterArchive_init ::
    "export_object \<Rightarrow> string \<Rightarrow> string \<Rightarrow> world \<Rightarrow> archive \<times> world" where
  "ExporterArchive_init eo apath aname w =
     (let c = ExportContext_init eo;
          (a, w1) =
            (case eo of
               File p \<Rightarrow>
                 (\<lparr>ctx = c\<lparr>archive_path := archive_path (ctx p),
                            archive_name := archive_name (ctx p)\<rparr>,
                   is_root = False,
                   is_gzip = is_gzip p,
                   is_exec = is_exec p,
                   pointer_file = pointer_file p,
                   pointer_cache = pointer_cache p,
                   archive_regexes = archive_regexes p,
                   target_regexes = target_regexes p\<rparr>, w)
             | _ \<Rightarrow>
                 (let (r1, w1) = list_copy class_archive_regexes w;
                      (r2, w2) = list_copy class_target_regexes w1
                  in (\<lparr>ctx = c, is_root = True, is_gzip = False, is_exec = False,
                       pointer_file = None, pointer_cache = None,
                       archive_regexes = r1, target_regexes = r2\<rparr>, w2)));
          a1 = (if apath \<noteq> [] then a\<lparr>ctx := (ctx a)\<lparr>archive_path := apath\<rparr>\<rparr> else a);
          a2 = (if aname \<noteq> [] then a1\<lparr>ctx := (ctx a1)\<lparr>archive_name := aname\<rparr>\<rparr> else a1)
      in (a2, w1))"

text \<open>
  \<^verbatim>\<open>open_archive(gzipped, execute, mode)\<close>. The two flags are stored before anything can
  fail; \<open>is_root\<close> is set once the file is open.
\<close>

definition open_archive ::
    "bool option \<Rightarrow> bool option \<Rightarrow> mode \<Rightarrow> archive \<times> world \<Rightarrow> error option \<times> archive \<times> world" where
  "open_archive gzipped execute m s =
     (let (a, w) = s;
          a1 = (case gzipped of None \<Rightarrow> a | Some g \<Rightarrow> a\<lparr>is_gzip := g\<rparr>);
          a2 = (case execute of None \<Rightarrow> a1 | Some x \<Rightarrow> a1\<lparr>is_exec := x\<rparr>)
      in if archive_name (ctx a2) \<noteq> [] then
           (let filepath = archive_path (ctx a2) @ archive_name (ctx a2) in
            case py_open filepath m (is_gzip a2) w of
              Inl e \<Rightarrow> (Some (RibmosaicError ''Could not open archive''), a2, w)
            | Inr (h, w1) \<Rightarrow>
                (let a3 = a2\<lparr>pointer_file := Some h\<rparr>;
                     w2 = (if is_exec a3 then w1\<lparr>exec_bits := insert filepath (exec_bits w1)\<rparr>
                           else w1)
                 in (None, a3\<lparr>is_root := True\<rparr>, w2)))
         else (Some (RibmosaicError ''Archive's path and name must be specified''), a2, w))"

text \<open>
  The body of \<^verbatim>\<open>write_text\<close> before its \<^verbatim>\<open>close\<close> argument is looked at: nothing happens
  for an empty text; otherwise the text goes to the file object, encoded first when the
  archive is gzipped, and an archive without file object raises.
\<close>

definition write_text_body :: "pytext \<Rightarrow> archive \<times> world \<Rightarrow> error option \<times> archive \<times> world" where
  "write_text_body t s =
     (let (a, w) = s in
      if truthy t then
        (case pointer_file a of
           Some h \<Rightarrow>
             (if is_gzip a then
                (case encode t of
                   Inl e \<Rightarrow> (Some e, a, w)
                 | Inr b \<Rightarrow>
                     (case py_write h b w of
                        Inl e \<Rightarrow> (Some e, a, w)
                      | Inr w1 \<Rightarrow> (None, a, w1)))
              else
                (case py_write h t w of
                   Inl e \<Rightarrow> (Some e, a, w)
                 | Inr w1 \<Rightarrow> (None, a, w1)))
         | None \<Rightarrow> (Some (RibmosaicError ''Archive already closed, cannot write text''), a, w))
      else (None, a, w))"

text \<open>One regex element: its three attributes, then \<^verbatim>\<open>re.sub\<close>.\<close>

definition apply_regex :: "env \<Rightarrow> archive \<Rightarrow> string \<Rightarrow> pytext \<Rightarrow> error + pytext" where
  "apply_regex E a regpath t =
     (case get_attr E (ctx a) regpath ''regex'' [] of
        Inl e \<Rightarrow> Inl e
      | Inr regex \<Rightarrow>
     (case get_attr E (ctx a) regpath ''replace'' [] of
        Inl e \<Rightarrow> Inl e
      | Inr replace \<Rightarrow>
     (case get_attr E (ctx a) regpath ''matches'' ''0'' of
        Inl e \<Rightarrow> Inl e
      | Inr matches \<Rightarrow>
     (case py_int matches of
        Inl e \<Rightarrow> Inl e
      | Inr n \<Rightarrow>
          if is_gzip a then py_re_sub E (Bytes regex) (Bytes replace) t n
          else py_re_sub E (Str regex) (Str replace) t n))))"

text \<open>The inner loop over the sub elements of one \<^verbatim>\<open>regexes\<close> element.\<close>

fun apply_elements :: "env \<Rightarrow> archive \<Rightarrow> string \<Rightarrow> string list \<Rightarrow> pytext \<Rightarrow> error + pytext" where
  "apply_elements E a xmlpath [] t = Inr t"
| "apply_elements E a xmlpath (el # els) t =
     (case apply_regex E a (xmlpath @ ''/'' @ el) t of
        Inl e \<Rightarrow> Inl e
      | Inr t' \<Rightarrow> apply_elements E a xmlpath els t')"

text \<open>The outer loop over the registered XML paths.\<close>

fun apply_regexes :: "env \<Rightarrow> archive \<Rightarrow> string list \<Rightarrow> pytext \<Rightarrow> error + pytext" where
  "apply_regexes E a [] t = Inr t"
| "apply_regexes E a (xmlpath # xs) t =
     (case apply_elements E a xmlpath (list_elements E xmlpath) t of
        Inl e \<Rightarrow> Inl e
      | Inr t' \<Rightarrow> apply_regexes E a xs t')"

text \<open>
  The \<^verbatim>\<open>try\<close> block of \<^verbatim>\<open>close_archive\<close>: read the file back, apply every rule to the
  text in memory, reopen the file for writing and write the text. The result holds the
  exception that ended the block, if any.
\<close>

definition rewrite_archive :: "env \<Rightarrow> archive \<times> world \<Rightarrow> error option \<times> archive \<times> world" where
  "rewrite_archive E s =
     (case open_archive None None ModeR s of
        (Some e, a1, w1) \<Rightarrow> (Some e, a1, w1)
      | (None, a1, w1) \<Rightarrow>
     (case pointer_file a1 of
        None \<Rightarrow> (Some AttributeError, a1, w1)
      | Some h \<Rightarrow>
     (case py_read h w1 of
        Inl e \<Rightarrow> (Some e, a1, w1)
      | Inr t \<Rightarrow>
     (let w2 = py_close h w1 in
      case apply_regexes E a1 (get_list w2 (archive_regexes a1)) t of
        Inl e \<Rightarrow> (Some e, a1, w2)
      | Inr t' \<Rightarrow>
     (case open_archive None None ModeW (a1, w2) of
        (Some e, a2, w3) \<Rightarrow> (Some e, a2, w3)
      | (None, a2, w3) \<Rightarrow>
     (case write_text_body t' (a2, w3) of
        (Some e, a3, w4) \<Rightarrow> (Some e, a3, w4)
      | (None, a3, w4) \<Rightarrow>
     (case pointer_file a3 of
        None \<Rightarrow> (Some AttributeError, a3, w4)
      | Some h' \<Rightarrow> (None, a3\<lparr>pointer_file := None\<rparr>, py_close h' w4))))))))"

text \<open>
  \<^verbatim>\<open>close_archive()\<close>. Only a root object closes; the handler of the \<^verbatim>\<open>try\<close> block builds
  a \<^verbatim>\<open>RibmosaicError\<close> object and does not raise it, so the exception is dropped.
\<close>

definition close_archive :: "env \<Rightarrow> archive \<times> world \<Rightarrow> error option \<times> archive \<times> world" where
  "close_archive E s =
     (let (a, w) = s in
      if is_root a then
        (let (a1, w1) =
               (case pointer_cache a of
                  Some c \<Rightarrow> (a\<lparr>pointer_cache := None\<rparr>, py_close c w)
                | None \<Rightarrow> (a, w))
         in case pointer_file a1 of
              Some h \<Rightarrow>
                (let w2 = py_close h w1;
                     a2 = a1\<lparr>pointer_file := None\<rparr>
                 in if get_list w2 (archive_regexes a2) \<noteq> []
                    then (None, snd (rewrite_archive E (a2, w2)))
                    else (None, a2, w2))
            | None \<Rightarrow> (None, a1, w1))
      else (None, a, w))"

text \<open>\<^verbatim>\<open>write_text(text, close)\<close>.\<close>

definition write_text ::
    "env \<Rightarrow> pytext \<Rightarrow> bool \<Rightarrow> archive \<times> world \<Rightarrow> error option \<times> archive \<times> world" where
  "write_text E t close s =
     (case write_text_body t s of
        (Some e, s') \<Rightarrow> (Some e, s')
      | (None, s') \<Rightarrow> if close then close_archive E s' else (None, s'))"

text \<open>\<^verbatim>\<open>add_regexes(xmlpath)\<close>: the path is appended to one of the two list objects.\<close>

definition add_regexes :: "env \<Rightarrow> string \<Rightarrow> archive \<times> world \<Rightarrow> error option \<times> archive \<times> world" where
  "add_regexes E xmlpath s =
     (let (a, w) = s in
      if xmlpath \<noteq> [] then
        (if list_elements E xmlpath \<noteq> [] then
           (case get_attr E (ctx a) xmlpath ''target'' [] of
              Inl e \<Rightarrow> (Some e, a, w)
            | Inr target \<Rightarrow>
                if target \<noteq> [] then (None, a, list_append (target_regexes a) xmlpath w)
                else (None, a, list_append (archive_regexes a) xmlpath w))
         else (None, a, w))
      else (None, a, w))"

text \<open>\<^verbatim>\<open>os.path.split\<close> and \<^verbatim>\<open>os.path.splitext\<close> (POSIX).\<close>

definition os_path_split :: "string \<Rightarrow> string \<times> string" where
  "os_path_split p =
     (let tail = rev (takeWhile (\<lambda>c. c \<noteq> CHR ''/'') (rev p));
          head = take (length p - length tail) p
      in (if head \<noteq> [] \<and> \<not> list_all (\<lambda>c. c = CHR ''/'') head
          then rev (dropWhile (\<lambda>c. c = CHR ''/'') (rev head)) else head,
          tail))"

definition os_path_splitext :: "string \<Rightarrow> string \<times> string" where
  "os_path_splitext p =
     (let base = rev (takeWhile (\<lambda>c. c \<noteq> CHR ''/'') (rev p));
          ext = rev (takeWhile (\<lambda>c. c \<noteq> CHR ''.'') (rev base))
      in if length ext < length base
            \<and> \<not> list_all (\<lambda>c. c = CHR ''.'') (take (length base - length ext - 1) base)
         then (take (length p - length ext - 1) p, drop (length p - length ext - 1) p)
         else (p, []))"

text \<open>\<^verbatim>\<open>list_targets(target)\<close>.\<close>

definition list_targets :: "env \<Rightarrow> archive \<Rightarrow> string \<Rightarrow> error + (string \<times> string) list" where
  "list_targets E a target =
     (if target \<noteq> [] then
        (let (t0, t1) = os_path_split target;
             path = (if t0 \<noteq> [] then t0 @ ''/'' else target_path (ctx a))
         in if take 1 t1 = ''*'' then
              (if path \<noteq> [] then
                 (case listdir E path of
                    None \<Rightarrow> Inl (RibmosaicError ''Cannot find target directory/file'')
                  | Some fs \<Rightarrow>
                      Inr (map (\<lambda>f. (path, f))
                             (filter (\<lambda>f. snd (os_path_splitext f) = drop 1 t1) fs)))
               else Inr [([], [])])
            else (if t1 \<noteq> [] then Inr [(path, t1)] else Inr [(path, target_name (ctx a))]))
      else Inr [([], [])])"

text \<open>The loop of \<^verbatim>\<open>write_code\<close> over the targets, and \<^verbatim>\<open>write_code(xmlpath, close)\<close>.\<close>

fun write_targets ::
    "env \<Rightarrow> string \<Rightarrow> (string \<times> string) list \<Rightarrow> archive \<times> world \<Rightarrow> error option \<times> archive \<times> world" where
  "write_targets E xmlpath [] s = (None, s)"
| "write_targets E xmlpath (t # ts) s =
     (let (a, w) = s;
          a1 = (if fst t \<noteq> [] then a\<lparr>ctx := (ctx a)\<lparr>target_path := fst t\<rparr>\<rparr> else a);
          a2 = (if snd t \<noteq> [] then a1\<lparr>ctx := (ctx a1)\<lparr>target_name := snd t\<rparr>\<rparr> else a1)
      in case get_text E (ctx a2) xmlpath of
           Inl e \<Rightarrow> (Some e, a2, w)
         | Inr txt \<Rightarrow>
             (case write_text E (Str txt) False (a2, w) of
                (Some e, s') \<Rightarrow> (Some e, s')
              | (None, s') \<Rightarrow> write_targets E xmlpath ts s'))"

definition write_code ::
    "env \<Rightarrow> string \<Rightarrow> bool \<Rightarrow> archive \<times> world \<Rightarrow> error option \<times> archive \<times> world" where
  "write_code E xmlpath close s =
     (case get_attr E (ctx (fst s)) xmlpath ''target'' [] of
        Inl e \<Rightarrow> (Some e, s)
      | Inr target \<Rightarrow>
     (case list_targets E (fst s) target of
        Inl e \<Rightarrow> (Some e, s)
      | Inr ts \<Rightarrow>
     (case write_targets E xmlpath ts s of
        (Some e, s') \<Rightarrow> (Some e, s')
      | (None, s') \<Rightarrow> if close then close_archive E s' else (None, s'))))"

text \<open>
  \<^verbatim>\<open>apply_regextargets()\<close>: the inner loop over the target files of one XML path, the
  outer loop over the registered paths, and the method, whose entry is recorded in the
  trace.
\<close>

fun regex_target_files ::
    "env \<Rightarrow> string \<Rightarrow> (string \<times> string) list \<Rightarrow> archive \<times> world \<Rightarrow> error option \<times> archive \<times> world" where
  "regex_target_files E xmlpath [] s = (None, s)"
| "regex_target_files E xmlpath (t # ts) s =
     (let (a, w) = s in
      case test_break w of
        (Some e, w1) \<Rightarrow> (Some e, a, w1)
      | (None, w1) \<Rightarrow>
          (let (ar, w2) = ExporterArchive_init (File a) (fst t) (snd t) w1;
               (r1, w3) = list_new [xmlpath] w2;
               (r2, w4) = list_new [] w3;
               ar1 = ar\<lparr>archive_regexes := r1, target_regexes := r2\<rparr>
           in case open_archive None None ModeR (ar1, w4) of
                (Some e, ar2, w5) \<Rightarrow> (Some e, a, w5)
              | (None, ar2, w5) \<Rightarrow>
                  (case close_archive E (ar2, w5) of
                     (Some e, ar3, w6) \<Rightarrow> (Some e, a, w6)
                   | (None, ar3, w6) \<Rightarrow> regex_target_files E xmlpath ts (a, w6))))"

fun regex_targets ::
    "env \<Rightarrow> string list \<Rightarrow> archive \<times> world \<Rightarrow> error option \<times> archive \<times> world" where
  "regex_targets E [] s = (None, s)"
| "regex_targets E (xmlpath # xs) s =
     (case get_attr E (ctx (fst s)) xmlpath ''target'' [] of
        Inl e \<Rightarrow> (Some e, s)
      | Inr target \<Rightarrow>
     (case list_targets E (fst s) target of
        Inl e \<Rightarrow> (Some e, s)
      | Inr ts \<Rightarrow>
     (case regex_target_files E xmlpath (filter (\<lambda>t. snd t \<noteq> []) ts) s of
        (Some e, s') \<Rightarrow> (Some e, s')
      | (None, s') \<Rightarrow> regex_targets E xs s')))"

definition apply_regextargets :: "env \<Rightarrow> archive \<times> world \<Rightarrow> error option \<times> archive \<times> world" where
  "apply_regextargets E s =
     (let (a, w) = s in
      regex_targets E (get_list w (target_regexes a))
        (a, w\<lparr>trace := trace w @ [EvRegexTargets (archive_name (ctx a))]\<rparr>))"

section \<open>ExporterCommand\<close>

text \<open>
  An \<^verbatim>\<open>ExporterCommand\<close> is an \<^verbatim>\<open>ExporterArchive\<close> (the field \<open>arch\<close>) with three more
  attributes; \<open>command_process\<close> holds the process id of the \<^verbatim>\<open>Popen\<close> object.
\<close>

record command =
  arch :: archive
  command_xmlpath :: string
  command_process :: "nat option"
  delay_build :: bool

text \<open>
  \<^verbatim>\<open>ExporterCommand.__init__\<close>. A constructor that raises returns no object; the world
  keeps what was done before.
\<close>

definition ExporterCommand_init ::
    "env \<Rightarrow> export_object \<Rightarrow> string \<Rightarrow> bool \<Rightarrow> string \<Rightarrow> string \<Rightarrow> mode \<Rightarrow> world
      \<Rightarrow> error \<times> world + command \<times> world" where
  "ExporterCommand_init E eo xmlpath delay apath aname amode w =
     (case (if xmlpath \<noteq> [] \<and> aname \<noteq> []
            then (case get_attr E default_context xmlpath ''extension'' [] of
                    Inl e \<Rightarrow> Inl e
                  | Inr ext \<Rightarrow> Inr (aname @ ext))
            else Inr aname) of
        Inl e \<Rightarrow> Inl (e, w)
      | Inr aname' \<Rightarrow>
     (let (a, w1) = ExporterArchive_init eo apath aname' w in
      case (if xmlpath \<noteq> [] then add_regexes E (xmlpath @ ''/regexes'') (a, w1)
            else (None, a, w1)) of
        (Some e, a2, w2) \<Rightarrow> Inl (e, w2)
      | (None, a2, w2) \<Rightarrow>
     (case open_archive None (Some True) amode (a2, w2) of
        (Some e, a3, w3) \<Rightarrow> Inl (e, w3)
      | (None, a3, w3) \<Rightarrow>
          Inr (\<lparr>arch = a3, command_xmlpath = xmlpath, command_process = None,
                delay_build = delay\<rparr>, w3))))"

text \<open>\<^verbatim>\<open>os.killpg(self.command_process.pid, signal.SIGTERM)\<close> and
  \<^verbatim>\<open>self.command_process.terminate()\<close>: without a process object the attribute access
  raises.\<close>

definition py_killpg :: "env \<Rightarrow> nat option \<Rightarrow> world \<Rightarrow> error option \<times> world" where
  "py_killpg E proc w =
     (case proc of
        None \<Rightarrow> (Some AttributeError, w)
      | Some pid \<Rightarrow>
          if killpg_ok E pid then (None, w\<lparr>trace := trace w @ [EvKillpg pid]\<rparr>)
          else (Some OSError, w))"

definition py_terminate :: "env \<Rightarrow> nat option \<Rightarrow> world \<Rightarrow> error option \<times> world" where
  "py_terminate E proc w =
     (case proc of
        None \<Rightarrow> (Some AttributeError, w)
      | Some pid \<Rightarrow>
          if terminate_ok E pid then (None, w\<lparr>trace := trace w @ [EvTerminate pid]\<rparr>)
          else (Some OSError, w))"

text \<open>\<^verbatim>\<open>terminate_command()\<close>: two nested \<^verbatim>\<open>try\<close> statements, the outer handler passes.\<close>

definition terminate_command :: "env \<Rightarrow> command \<times> world \<Rightarrow> error option \<times> command \<times> world" where
  "terminate_command E s =
     (let (c, w) = s in
      case py_killpg E (command_process c) w of
        (None, w1) \<Rightarrow> (None, c, w1)
      | (Some e, w1) \<Rightarrow>
          (case py_terminate E (command_process c) w1 of
             (None, w2) \<Rightarrow> (None, c, w2)
           | (Some e', w2) \<Rightarrow> (None, c, w2)))"

text \<open>\<^verbatim>\<open>build_code(element, close)\<close>.\<close>

definition build_code ::
    "env \<Rightarrow> string \<Rightarrow> bool \<Rightarrow> command \<times> world \<Rightarrow> error option \<times> command \<times> world" where
  "build_code E element close s =
     (let (c, w) = s in
      case write_code E (command_xmlpath c @ ''/'' @ element) close (arch c, w) of
        (x, a, w1) \<Rightarrow> (x, c\<lparr>arch := a\<rparr>, w1))"

text \<open>
  The polling loop of \<^verbatim>\<open>execute_command\<close>, run against the answers \<open>ps\<close> that
  \<^verbatim>\<open>poll()\<close> is going to give: \<open>None\<close> while the process runs. When the answers end with
  the process still running, the loop has not returned (\<open>None\<close>); otherwise the result
  carries the answers not yet used.
\<close>

fun poll_loop ::
    "env \<Rightarrow> int option list \<Rightarrow> command \<times> world \<Rightarrow> (command \<times> world \<times> int option list) option" where
  "poll_loop E [] s = None"
| "poll_loop E (Some rc # ps) s = Some (fst s, snd s, ps)"
| "poll_loop E (None # ps) s =
     (case test_break (snd s) of
        (None, w1) \<Rightarrow> poll_loop E ps (fst s, w1)
      | (Some e, w1) \<Rightarrow>
          (case terminate_command E (fst s, w1) of
             (x, c2, w2) \<Rightarrow> poll_loop E ps (c2, w2)))"

text \<open>
  \<^verbatim>\<open>execute_command()\<close> in four blocks, in the order of the source: the delayed build and
  the close, the \<^verbatim>\<open>execute\<close> attribute, the spawn, and (unless interactive) the polling
  loop followed by \<^verbatim>\<open>apply_regextargets\<close>. The result is \<open>None\<close> when the polling loop
  does not return.
\<close>

definition build_all :: "env \<Rightarrow> command \<times> world \<Rightarrow> error option \<times> command \<times> world" where
  "build_all E s =
     (case build_code E ''begin'' False s of
        (Some e, s1) \<Rightarrow> (Some e, s1)
      | (None, s1) \<Rightarrow>
     (case build_code E ''middle'' False s1 of
        (Some e, s2) \<Rightarrow> (Some e, s2)
      | (None, s2) \<Rightarrow> build_code E ''end'' False s2))"

definition delayed_build :: "env \<Rightarrow> command \<times> world \<Rightarrow> error option \<times> command \<times> world" where
  "delayed_build E s =
     (case pointer_file (arch (fst s)) of
        None \<Rightarrow> (None, s)
      | Some h \<Rightarrow>
     (case (if delay_build (fst s) then build_all E s else (None, s)) of
        (Some e, s3) \<Rightarrow> (Some e, s3)
      | (None, c3, w3) \<Rightarrow>
          (case close_archive E (arch c3, w3) of
             (x, a4, w4) \<Rightarrow> (x, c3\<lparr>arch := a4\<rparr>, w4))))"

definition spawn :: "env \<Rightarrow> command \<times> world \<Rightarrow> error option \<times> command \<times> world" where
  "spawn E s =
     (let (c, w) = s in
      case close_archive E (arch c, w) of
        (Some e, a1, w1) \<Rightarrow> (Some (RibmosaicError ''Could not execute command''), c\<lparr>arch := a1\<rparr>, w1)
      | (None, a1, w1) \<Rightarrow>
          (let cmd = archive_path (ctx a1) @ archive_name (ctx a1);
               c1 = c\<lparr>arch := a1\<rparr>
           in case popen E cmd True of
                Some pid \<Rightarrow>
                  (None, c1\<lparr>command_process := Some pid\<rparr>, w1\<lparr>trace := trace w1 @ [EvSpawn cmd]\<rparr>)
              | None \<Rightarrow>
                  (case popen E cmd False of
                     Some pid \<Rightarrow>
                       (None, c1\<lparr>command_process := Some pid\<rparr>,
                        w1\<lparr>trace := trace w1 @ [EvSpawn cmd]\<rparr>)
                   | None \<Rightarrow> (Some (RibmosaicError ''Could not execute command''), c1, w1))))"

text \<open>The \<^verbatim>\<open>execute\<close> attribute of the command panel, resolved and evaluated.\<close>

definition execute_attribute :: "env \<Rightarrow> command \<Rightarrow> error + bool" where
  "execute_attribute E c =
     (case get_attr E (ctx (arch c)) (command_xmlpath c) ''execute'' ''True'' of
        Inl e \<Rightarrow> Inl e
      | Inr v \<Rightarrow> py_eval E v)"

text \<open>
  The last block of \<^verbatim>\<open>execute_command\<close>: unless the scene is interactive, poll until the
  process has exited and then apply the target regexes.
\<close>

definition poll_and_apply ::
    "env \<Rightarrow> command \<times> world \<Rightarrow> (error option \<times> command \<times> world) option" where
  "poll_and_apply E s =
     (case pointer_datablock (ctx (arch (fst s))) of
        None \<Rightarrow> Some (Some AttributeError, s)
      | Some sc \<Rightarrow>
          if \<not> ribmosaic_interactive sc then
            (case poll_loop E (poll_results (snd s)) s of
               None \<Rightarrow> None
             | Some (c3, w3, ps) \<Rightarrow>
                 (case apply_regextargets E (arch c3, w3\<lparr>poll_results := ps\<rparr>) of
                    (x, a4, w4) \<Rightarrow> Some (x, c3\<lparr>arch := a4\<rparr>, w4)))
          else Some (None, s))"

definition execute_command ::
    "env \<Rightarrow> command \<times> world \<Rightarrow> (error option \<times> command \<times> world) option" where
  "execute_command E s =
     (case delayed_build E s of
        (Some e, s1) \<Rightarrow> Some (Some e, s1)
      | (None, s1) \<Rightarrow>
     (case execute_attribute E (fst s1) of
        Inl e \<Rightarrow> Some (Some (RibmosaicError ''Invalid result for execute attribute''), s1)
      | Inr execute \<Rightarrow>
          if execute then
            (case spawn E s1 of
               (Some e, s2) \<Rightarrow> Some (Some e, s2)
             | (None, s2) \<Rightarrow> poll_and_apply E s2)
          else Some (None, s1)))"

section \<open>ExporterManager\<close>

datatype category = OPTIMIZE | COMPILE | INFO | RENDER | POSTRENDER

record render_pass =
  pass_enabled :: bool
  pass_range_start :: int
  pass_range_end :: int
  pass_range_step :: int

text \<open>
  A Python \<^verbatim>\<open>range\<close> object. The constructor refuses a zero step; \<^verbatim>\<open>f in r\<close> is decided
  by arithmetic, and iteration yields \<^verbatim>\<open>start + k * step\<close> for \<^verbatim>\<open>k\<close> below the length.
\<close>

record pyrange =
  range_start :: int
  range_stop :: int
  range_step :: int

definition py_range :: "int \<Rightarrow> int \<Rightarrow> int \<Rightarrow> error + pyrange" where
  "py_range a b st =
     (if st = 0 then Inl ValueError
      else Inr \<lparr>range_start = a, range_stop = b, range_step = st\<rparr>)"

definition range_contains :: "pyrange \<Rightarrow> int \<Rightarrow> bool" where
  "range_contains r f =
     (if 0 < range_step r
      then range_start r \<le> f \<and> f < range_stop r \<and> (f - range_start r) mod range_step r = 0
      else range_stop r < f \<and> f \<le> range_start r \<and> (f - range_start r) mod range_step r = 0)"

definition range_length :: "pyrange \<Rightarrow> nat" where
  "range_length r =
     (let lo = (if 0 < range_step r then range_start r else range_stop r);
          hi = (if 0 < range_step r then range_stop r else range_start r);
          st = (if 0 < range_step r then range_step r else - range_step r)
      in if hi \<le> lo then 0 else nat ((hi - lo - 1) div st + 1))"

definition range_elements :: "pyrange \<Rightarrow> int list" where
  "range_elements r = map (\<lambda>k. range_start r + int k * range_step r) [0..<range_length r]"

text \<open>
  The loop of \<^verbatim>\<open>_update_directory\<close> that stores one range per pass: a pass property that
  is zero falls back to the scene's frame range.
\<close>

definition pass_range :: "scene \<Rightarrow> render_pass \<Rightarrow> error + pyrange" where
  "pass_range sc p =
     (let start = (if pass_range_start p \<noteq> 0 then pass_range_start p else frame_start sc);
          end = (if pass_range_end p \<noteq> 0 then pass_range_end p else frame_end sc);
          step = (if pass_range_step p \<noteq> 0 then pass_range_step p else frame_step sc)
      in py_range start (end + 1) step)"

fun update_pass_ranges :: "scene \<Rightarrow> render_pass list \<Rightarrow> error + pyrange list" where
  "update_pass_ranges sc [] = Inr []"
| "update_pass_ranges sc (p # ps) =
     (case pass_range sc p of
        Inl e \<Rightarrow> Inl e
      | Inr r \<Rightarrow>
          (case update_pass_ranges sc ps of Inl e \<Rightarrow> Inl e | Inr rs \<Rightarrow> Inr (r # rs)))"

text \<open>
  The pass loop of \<^verbatim>\<open>export_rib\<close>, reduced to its guard: the indices \<^verbatim>\<open>i\<close> of the passes
  whose body is entered at frame \<open>f\<close>, in order. \<^verbatim>\<open>self._pass_ranges[i]\<close> is only
  evaluated for an enabled pass and raises when the index is out of range.
\<close>

fun export_rib_passes :: "int \<Rightarrow> pyrange list \<Rightarrow> nat \<Rightarrow> render_pass list \<Rightarrow> error + nat list" where
  "export_rib_passes f rs i [] = Inr []"
| "export_rib_passes f rs i (p # ps) =
     (if pass_enabled p then
        (if i < length rs then
           (case export_rib_passes f rs (Suc i) ps of
              Inl e \<Rightarrow> Inl e
            | Inr js \<Rightarrow> Inr (if range_contains (rs ! i) f then i # js else js))
         else Inl IndexError)
      else export_rib_passes f rs (Suc i) ps)"

record manager =
  export_scene :: scene
  export_passes :: "render_pass list"
  pass_ranges :: "pyrange list"
  command_scripts :: "category \<Rightarrow> command list"

text \<open>
  The \<^verbatim>\<open>try\<close> statement of \<^verbatim>\<open>export_rib\<close> that builds one \<^verbatim>\<open>RENDER\<close> or \<^verbatim>\<open>POSTRENDER\<close>
  command: the constructor, then the three elements of the panel, the last one closing
  the script. When one of them raises, the script is closed and a \<^verbatim>\<open>RibmosaicError\<close> is
  raised.
\<close>

definition build_command ::
    "env \<Rightarrow> export_context \<Rightarrow> string \<Rightarrow> string \<Rightarrow> string \<Rightarrow> world
      \<Rightarrow> error \<times> world + command \<times> world" where
  "build_command E ec xmlpath path name w =
     (case ExporterCommand_init E (Ctx ec) xmlpath False path name ModeW w of
        Inl (e, w1) \<Rightarrow> Inl (RibmosaicError ''Failed to build command'', w1)
      | Inr s \<Rightarrow>
     (case build_code E ''begin'' False s of
        (Some e, c1, w1) \<Rightarrow>
          Inl (RibmosaicError ''Failed to build command'', snd (snd (close_archive E (arch c1, w1))))
      | (None, s1) \<Rightarrow>
     (case build_code E ''middle'' False s1 of
        (Some e, c2, w2) \<Rightarrow>
          Inl (RibmosaicError ''Failed to build command'', snd (snd (close_archive E (arch c2, w2))))
      | (None, s2) \<Rightarrow>
     (case build_code E ''end'' True s2 of
        (Some e, c3, w3) \<Rightarrow>
          Inl (RibmosaicError ''Failed to build command'', snd (snd (close_archive E (arch c3, w3))))
      | (None, s3) \<Rightarrow> Inr s3))))"

text \<open>The guard of \<^verbatim>\<open>execute_commands\<close> that decides whether a command is executed.\<close>

definition category_enabled :: "scene \<Rightarrow> category \<Rightarrow> bool" where
  "category_enabled sc t =
     (let c = ribmosaic_compileshd sc;
          opt = ribmosaic_optimizetex sc;
          r = (if ribmosaic_interactive sc then True else ribmosaic_renderrib sc)
      in ((t = RENDER \<or> t = POSTRENDER) \<and> r) \<or> ((t = COMPILE \<or> t = INFO) \<and> c)
         \<or> (t = OPTIMIZE \<and> opt))"

text \<open>The line written to the root script for a command.\<close>

definition invocation_line :: "command \<Rightarrow> string" where
  "invocation_line s = ''./'' @ archive_name (ctx (arch s)) @ [CHR 0x0A]"

text \<open>
  The inner loop of \<^verbatim>\<open>execute_commands\<close> over the commands of one category. The result
  holds the exception that left the loop, if any, the commands as executing them left
  them, the root script object and the world.
\<close>

fun run_bucket ::
    "env \<Rightarrow> scene \<Rightarrow> category \<Rightarrow> command list \<Rightarrow> command \<times> world
      \<Rightarrow> (error option \<times> command list \<times> command \<times> world) option" where
  "run_bucket E sc t [] rw = Some (None, [], rw)"
| "run_bucket E sc t (s # ss) rw =
     (case (if category_enabled sc t then execute_command E (s, snd rw)
            else Some (None, s, snd rw)) of
        None \<Rightarrow> None
      | Some (Some e, s1, w1) \<Rightarrow> Some (Some e, s1 # ss, fst rw, w1)
      | Some (None, s1, w1) \<Rightarrow>
          (case (if t \<noteq> INFO
                 then write_text E (Str (invocation_line s1)) False (arch (fst rw), w1)
                 else (None, arch (fst rw), w1)) of
             (Some e, a2, w2) \<Rightarrow> Some (Some e, s1 # ss, (fst rw)\<lparr>arch := a2\<rparr>, w2)
           | (None, a2, w2) \<Rightarrow>
               (case run_bucket E sc t ss ((fst rw)\<lparr>arch := a2\<rparr>, w2) of
                  None \<Rightarrow> None
                | Some (x, ss', rw') \<Rightarrow> Some (x, s1 # ss', rw'))))"

text \<open>The outer loop over the categories; a bucket is emptied unless interactive.\<close>

fun run_categories ::
    "env \<Rightarrow> scene \<Rightarrow> category list \<Rightarrow> (category \<Rightarrow> command list) \<Rightarrow> command \<times> world
      \<Rightarrow> (error option \<times> (category \<Rightarrow> command list) \<times> command \<times> world) option" where
  "run_categories E sc [] cs rw = Some (None, cs, rw)"
| "run_categories E sc (t # ts) cs rw =
     (case run_bucket E sc t (cs t) rw of
        None \<Rightarrow> None
      | Some (Some e, ss', rw') \<Rightarrow> Some (Some e, cs(t := ss'), rw')
      | Some (None, ss', rw') \<Rightarrow>
          run_categories E sc ts
            (if \<not> ribmosaic_interactive sc then cs(t := []) else cs(t := ss')) rw')"

text \<open>
  \<^verbatim>\<open>execute_commands()\<close>: the root script is opened for appending, the loops run inside a
  \<^verbatim>\<open>try\<close> whose handler passes, and the root script is closed. \<open>execute_commands_try\<close> is
  the body of the \<^verbatim>\<open>try\<close>; its result still shows the exception that left the loops.
\<close>

definition execute_commands_try ::
    "env \<Rightarrow> manager \<Rightarrow> command \<times> world
      \<Rightarrow> (error option \<times> (category \<Rightarrow> command list) \<times> command \<times> world) option" where
  "execute_commands_try E m rw =
     run_categories E (export_scene m)
       [OPTIMIZE, COMPILE, INFO, RENDER, POSTRENDER] (command_scripts m) rw"

definition execute_commands :: "env \<Rightarrow> manager \<times> world \<Rightarrow> (error option \<times> manager \<times> world) option" where
  "execute_commands E mw =
     (let (m, w) = mw in
      case ExporterCommand_init E PyNone [] False ''./'' ''START.sh.bat'' ModeA w of
        Inl (e, w1) \<Rightarrow> Some (Some e, m, w1)
      | Inr rw \<Rightarrow>
          (case execute_commands_try E m rw of
             None \<Rightarrow> None
           | Some (x, cs', root', w2) \<Rightarrow>
               (case close_archive E (arch root', w2) of
                  (y, a3, w3) \<Rightarrow> Some (y, m\<lparr>command_scripts := cs'\<rparr>, w3))))"

section \<open>A regular expression engine for literal patterns\<close>

text \<open>
  \<^verbatim>\<open>re.sub\<close> for a pattern and a replacement without special characters: the leftmost
  occurrences, not overlapping, are replaced from left to right. The budget is the
  number of substitutions still allowed, \<open>None\<close> for no limit (\<^verbatim>\<open>count = 0\<close>); a negative
  count allows none.
\<close>

fun budget_left :: "nat option \<Rightarrow> bool" where
  "budget_left None = True"
| "budget_left (Some k) = (0 < k)"

fun budget_spend :: "nat option \<Rightarrow> nat option" where
  "budget_spend None = None"
| "budget_spend (Some k) = Some (k - 1)"

fun literal_scan :: "string \<Rightarrow> string \<Rightarrow> nat option \<Rightarrow> nat \<Rightarrow> string \<Rightarrow> string" where
  "literal_scan p r b skip [] = []"
| "literal_scan p r b skip (c # cs) =
     (if 0 < skip then literal_scan p r b (skip - 1) cs
      else if budget_left b \<and> take (length p) (c # cs) = p
           then r @ literal_scan p r (budget_spend b) (length p - 1) cs
           else c # literal_scan p r b 0 cs)"

fun literal_gaps :: "string \<Rightarrow> nat option \<Rightarrow> string \<Rightarrow> string" where
  "literal_gaps r b [] = (if budget_left b then r else [])"
| "literal_gaps r b (c # cs) =
     (if budget_left b then r @ c # literal_gaps r (budget_spend b) cs else c # cs)"

definition literal_sub :: "string \<Rightarrow> string \<Rightarrow> string \<Rightarrow> int \<Rightarrow> error + string" where
  "literal_sub p r t n =
     (let b = (if n = 0 then None else Some (nat n))
      in Inr (if p = [] then literal_gaps r b t else literal_scan p r b 0 t))"

section \<open>Example configurations\<close>

text \<open>
  A pipeline with two command panels. The \<^verbatim>\<open>regexes\<close> element of \<^verbatim>\<open>P/C/N\<close> has the single sub
  element \<^verbatim>\<open>R1\<close> (replace \<^verbatim>\<open>foo\<close> by \<^verbatim>\<open>baz\<close>, at most once); that of \<^verbatim>\<open>P/C/B\<close> has the same
  \<^verbatim>\<open>R1\<close> followed by \<^verbatim>\<open>R2\<close>, whose \<^verbatim>\<open>matches\<close> attribute is no number. Neither has a
  target, so the rules apply to the archive itself. Every other attribute has its default.
\<close>

definition example_attr :: "export_context \<Rightarrow> string \<Rightarrow> string \<Rightarrow> string \<Rightarrow> error + string" where
  "example_attr c path attr dflt =
     (if attr = ''regex'' \<and> path \<in> {''P/C/N/regexes/R1'', ''P/C/B/regexes/R1''} then Inr ''foo''
      else if attr = ''replace'' \<and> path \<in> {''P/C/N/regexes/R1'', ''P/C/B/regexes/R1''} then Inr ''baz''
      else if attr = ''matches'' \<and> path \<in> {''P/C/N/regexes/R1'', ''P/C/B/regexes/R1''} then Inr ''1''
      else if attr = ''regex'' \<and> path = ''P/C/B/regexes/R2'' then Inr ''bar''
      else if attr = ''replace'' \<and> path = ''P/C/B/regexes/R2'' then Inr ''qux''
      else if attr = ''matches'' \<and> path = ''P/C/B/regexes/R2'' then Inr ''all''
      else Inr dflt)"

definition example_eval :: "string \<Rightarrow> error + bool" where
  "example_eval v =
     (if v = ''True'' then Inr True else if v = ''False'' then Inr False else Inl ValueError)"

definition example_env :: env where
  "example_env =
     \<lparr>list_elements = (\<lambda>p. if p = ''P/C/N/regexes'' then [''R1'']
                             else if p = ''P/C/B/regexes'' then [''R1'', ''R2''] else []),
      get_attr = example_attr,
      get_text = (\<lambda>c p. Inr []),
      re_sub = literal_sub,
      listdir = (\<lambda>p. None),
      py_eval = example_eval,
      popen = (\<lambda>cmd setsid. Some 7),
      killpg_ok = (\<lambda>pid. True),
      terminate_ok = (\<lambda>pid. True)\<rparr>"

text \<open>
  An archive has no open file when it holds no file object or the file object it holds
  has been closed (by this archive or by another one that shares it).
\<close>

definition handle_not_open :: "archive \<Rightarrow> world \<Rightarrow> bool" where
  "handle_not_open a w =
     (case pointer_file a of
        None \<Rightarrow> True
      | Some h \<Rightarrow> (if h < length (handles w) then h_closed (handles w ! h) else True))"

text \<open>A text archive \<^verbatim>\<open>./a.rib\<close> that has been opened for writing and closed again.\<close>

definition closed_example :: "archive \<times> world" where
  "closed_example =
     (let (a, w) = ExporterArchive_init PyNone ''./'' ''a.rib'' initial_world
      in snd (close_archive example_env (snd (open_archive None None ModeW (a, w)))))"

text \<open>The root archive \<^verbatim>\<open>./a.rib\<close>, opened for writing.\<close>

definition parent_example :: "archive \<times> world" where
  "parent_example =
     snd (open_archive None None ModeW
            (ExporterArchive_init PyNone ''./'' ''a.rib'' initial_world))"

text \<open>An archive constructed from the open root archive.\<close>

definition child_example :: "archive" where
  "child_example = fst (ExporterArchive_init (File (fst parent_example)) [] [] (snd parent_example))"

text \<open>
  The root archive \<^verbatim>\<open>./a.rib\<close>, gzipped or not, with the rules of one panel registered and
  the text \<^verbatim>\<open>foo bar foo\<close> written, still open.
\<close>

definition written_example :: "bool \<Rightarrow> string \<Rightarrow> archive \<times> world" where
  "written_example gz xmlpath =
     (let s0 = ExporterArchive_init PyNone ''./'' ''a.rib'' initial_world;
          s1 = snd (open_archive (Some gz) None ModeW s0);
          s2 = snd (add_regexes example_env xmlpath s1)
      in snd (write_text example_env (Str ''foo bar foo'') False s2))"

text \<open>
  An archive constructed from that root archive and then opened for reading, as
  \<^verbatim>\<open>apply_regextargets\<close> does with its target files.
\<close>

definition reopened_example :: "error option \<times> archive \<times> world" where
  "reopened_example =
     (let (p, w) = written_example False ''P/C/N/regexes'';
          (c, w1) = ExporterArchive_init (File p) [] [] w
      in open_archive None None ModeR (c, w1))"

text \<open>Two archives constructed one after the other from \<^verbatim>\<open>None\<close>.\<close>

definition sibling_a :: "archive \<times> world" where
  "sibling_a = ExporterArchive_init PyNone ''./'' ''a.rib'' initial_world"

definition sibling_b :: "archive \<times> world" where
  "sibling_b = ExporterArchive_init PyNone ''./'' ''b.rib'' (snd sibling_a)"

text \<open>
  A scene that is not interactive, and an enabled pass with the frame range 1 to 10 in
  steps of 2.
\<close>

definition example_pass :: render_pass where
  "example_pass = \<lparr>pass_enabled = True, pass_range_start = 1, pass_range_end = 10,
                     pass_range_step = 2\<rparr>"

definition example_scene :: scene where
  "example_scene = \<lparr>ribmosaic_interactive = False, ribmosaic_compileshd = False,
     ribmosaic_optimizetex = False, ribmosaic_renderrib = False,
     frame_start = 1, frame_end = 250, frame_step = 1, frame_current = 1\<rparr>"

section \<open>Notions used in the statements\<close>

text \<open>The file of an archive, and the text that reading it in the archive's mode gives.\<close>

definition archive_file :: "archive \<Rightarrow> string" where
  "archive_file a = archive_path (ctx a) @ archive_name (ctx a)"

definition file_text :: "archive \<Rightarrow> string \<Rightarrow> pytext" where
  "file_text a c = (if is_gzip a then Bytes c else Str c)"

text \<open>
  The file objects of \<open>w\<close> are still there in \<open>w'\<close>, on the same paths, and those that were
  closed are still closed.
\<close>

definition handles_extend :: "world \<Rightarrow> world \<Rightarrow> bool" where
  "handles_extend w w' =
     (length (handles w) \<le> length (handles w') \<and>
      (\<forall>h. h < length (handles w) \<longrightarrow>
         h_path (handles w' ! h) = h_path (handles w ! h) \<and>
         (h_closed (handles w ! h) \<longrightarrow> h_closed (handles w' ! h))))"

subsection \<open>Frames\<close>

text \<open>
  What a step leaves alone, relative to a set \<open>prot\<close> of protected paths: the trace
  and the pending poll results are unchanged, the store of file objects is only extended,
  the store of list objects only grows at its end, and neither the contents of a protected
  path nor a file object opened on one is touched.
\<close>

definition arch_frame :: "(string \<Rightarrow> bool) \<Rightarrow> world \<Rightarrow> world \<Rightarrow> bool" where
  "arch_frame prot w w' =
     (trace w' = trace w \<and> poll_results w' = poll_results w \<and> handles_extend w w' \<and>
      (\<exists>ys. lists w' = lists w @ ys) \<and>
      (\<forall>p. prot p \<longrightarrow> files w' p = files w p) \<and>
      (\<forall>h. h < length (handles w) \<longrightarrow> prot (h_path (handles w ! h)) \<longrightarrow>
           handles w' ! h = handles w ! h))"

text \<open>
  An archive is foreign to the protected paths when its own file is not protected and no
  file object it points to was opened on a protected path.
\<close>

definition foreign :: "(string \<Rightarrow> bool) \<Rightarrow> archive \<Rightarrow> world \<Rightarrow> bool" where
  "foreign prot a w =
     (\<not> prot (archive_file a) \<and>
      (\<forall>h. pointer_file a = Some h \<longrightarrow>
           h < length (handles w) \<and> \<not> prot (h_path (handles w ! h))) \<and>
      (\<forall>h. pointer_cache a = Some h \<longrightarrow>
           h < length (handles w) \<and> \<not> prot (h_path (handles w ! h))))"

text \<open>
  The fields of an archive that name it: they are never reassigned after construction.
\<close>

definition same_ident :: "archive \<Rightarrow> archive \<Rightarrow> bool" where
  "same_ident a a' =
     (archive_path (ctx a') = archive_path (ctx a) \<and>
      archive_name (ctx a') = archive_name (ctx a) \<and>
      pointer_datablock (ctx a') = pointer_datablock (ctx a) \<and>
      target_regexes a' = target_regexes a)"

text \<open>
  The frame of a command step: as \<open>arch_frame\<close>, but the trace and the poll
  results may change.
\<close>

definition cmd_frame :: "(string \<Rightarrow> bool) \<Rightarrow> world \<Rightarrow> world \<Rightarrow> bool" where
  "cmd_frame prot w w' =
     (handles_extend w w' \<and>
      (\<exists>ys. lists w' = lists w @ ys) \<and>
      (\<forall>p. prot p \<longrightarrow> files w' p = files w p) \<and>
      (\<forall>h. h < length (handles w) \<longrightarrow> prot (h_path (handles w ! h)) \<longrightarrow>
           handles w' ! h = handles w ! h))"

text \<open>
  No target file that a panel lists lies on a protected path.
\<close>

definition targets_foreign :: "(string \<Rightarrow> bool) \<Rightarrow> env \<Rightarrow> bool" where
  "targets_foreign prot E =
     (\<forall>a x target ts t.
        get_attr E (ctx a) x ''target'' [] = Inr target \<longrightarrow>
        list_targets E a target = Inr ts \<longrightarrow> t \<in> set ts \<longrightarrow> snd t \<noteq> [] \<longrightarrow>
        \<not> prot ((if fst t \<noteq> [] then fst t else archive_path (ctx a)) @ snd t))"

definition same_cmd :: "command \<Rightarrow> command \<Rightarrow> bool" where
  "same_cmd c c' =
     (same_ident (arch c) (arch c') \<and> command_xmlpath c' = command_xmlpath c \<and>
      delay_build c' = delay_build c)"

text \<open>
  The events that one call of \<open>terminate_command\<close> leaves in the trace, and
  those of a whole poll loop, given which of its iterations saw a cancellation request.
\<close>

definition signal_events :: "env \<Rightarrow> nat \<Rightarrow> event list" where
  "signal_events E pid =
     (if killpg_ok E pid then [EvKillpg pid]
      else if terminate_ok E pid then [EvTerminate pid] else [])"

definition signals :: "env \<Rightarrow> nat \<Rightarrow> bool list \<Rightarrow> event list" where
  "signals E pid bs = concat (map (\<lambda>b. if b then signal_events E pid else []) bs)"

text \<open>
  The process that \<open>spawn\<close> starts: first with a new session, then without.
\<close>

definition popen_pid :: "env \<Rightarrow> string \<Rightarrow> nat option" where
  "popen_pid E cmd = (case popen E cmd True of Some pid \<Rightarrow> Some pid | None \<Rightarrow> popen E cmd False)"

subsection \<open>The root shell script\<close>

definition root_script :: string where
  "root_script = ''./START.sh.bat''"

text \<open>
  The root script is open for appending as a text file, and holds \<open>c\<close>.
\<close>

definition root_ready :: "command \<Rightarrow> world \<Rightarrow> string \<Rightarrow> bool" where
  "root_ready R w c =
     (\<exists>H. pointer_file (arch R) = Some H \<and> \<not> is_gzip (arch R) \<and> H < length (handles w) \<and>
          h_path (handles w ! H) = root_script \<and> h_mode (handles w ! H) = ModeA \<and>
          \<not> h_gzip (handles w ! H) \<and> \<not> h_closed (handles w ! H) \<and>
          files w root_script = Some c)"

abbreviation root_prot :: "string \<Rightarrow> bool" where
  "root_prot \<equiv> (\<lambda>p. p = root_script)"

subsection \<open>Example commands\<close>

text \<open>
  A render command built for the panel \<open>P/C/N\<close>, a run of it in which the
  process is still running at two polls, a cancellation is requested at the second, and
  the process has exited at the third; and a manager holding this command in the RENDER
  bucket and an executed INFO command in the INFO bucket.
\<close>

definition render_scene :: scene where
  "render_scene = example_scene\<lparr>ribmosaic_renderrib := True, ribmosaic_compileshd := True\<rparr>"

definition example_context :: export_context where
  "example_context =
     \<lparr>pointer_datablock = Some render_scene,
      archive_path = [], archive_name = [],
      target_path = ''./Archives/'', target_name = ''P00001_F00001.rib''\<rparr>"

definition render_command_example :: "error \<times> world + command \<times> world" where
  "render_command_example =
     build_command example_env example_context ''P/C/N'' ''./''
       ''RENDER_P00001_F00001_C00001'' initial_world"

definition cancelled_run :: "(error option \<times> command \<times> world) option" where
  "cancelled_run =
     (case render_command_example of
        Inl ew \<Rightarrow> None
      | Inr (c, w) \<Rightarrow>
          execute_command example_env
            (c, w\<lparr>poll_results := [None, None, Some (- 15)],
                  break_requests := [False, True, True]\<rparr>))"

definition render_cmd :: command where
  "render_cmd = fst (projr render_command_example)"

definition render_world :: world where
  "render_world = (snd (projr render_command_example))
     \<lparr>poll_results := [None, None, Some (- 15)], break_requests := [False, True, True]\<rparr>"

definition info_command_example :: "error \<times> world + command \<times> world" where
  "info_command_example =
     ExporterCommand_init example_env (Ctx example_context) ''P/C/N'' True ''./''
       ''INFO_S00001_C00001'' ModeW (snd (projr render_command_example))"

definition example_manager :: manager where
  "example_manager =
     \<lparr>export_scene = render_scene,
      export_passes = [example_pass],
      pass_ranges = [\<lparr>range_start = 1, range_stop = 11, range_step = 2\<rparr>],
      command_scripts = (\<lambda>t. [])(INFO := [fst (projr info_command_example)],
                                  RENDER := [fst (projr render_command_example)])\<rparr>"

definition manager_world :: world where
  "manager_world = (snd (projr info_command_example))\<lparr>poll_results := [Some 0, Some 0]\<rparr>"


section \<open>Properties\<close>

lemmas eval_defs =
  initial_world_def default_context_def ExportContext_init_def ExporterArchive_init_def
  class_archive_regexes_def class_target_regexes_def get_list_def list_new_def list_copy_def
  list_append_def new_handle_def py_open_def py_close_def py_write_def py_read_def
  open_archive_def write_text_body_def write_text_def truthy_def
  apply_regex_def py_int_def strip_blanks_def unsigned_int_def
  rewrite_archive_def close_archive_def add_regexes_def
  literal_sub_def example_attr_def example_eval_def example_env_def

subsection \<open>The store of file objects\<close>

lemma handles_extend_refl: "handles_extend w w"
  by (simp add: handles_extend_def)

lemma handles_extend_trans:
  "handles_extend w1 w2 \<Longrightarrow> handles_extend w2 w3 \<Longrightarrow> handles_extend w1 w3"
proof -
  assume a: "handles_extend w1 w2" and b: "handles_extend w2 w3"
  have l: "length (handles w1) \<le> length (handles w3)"
    using a b by (simp add: handles_extend_def)
  have "h_path (handles w3 ! h) = h_path (handles w1 ! h) \<and>
        (h_closed (handles w1 ! h) \<longrightarrow> h_closed (handles w3 ! h))"
    if "h < length (handles w1)" for h
  proof -
    from that a have "h < length (handles w2)" by (simp add: handles_extend_def)
    with that a b show ?thesis by (simp add: handles_extend_def)
  qed
  with l show ?thesis by (simp add: handles_extend_def)
qed

lemma handles_extend_same: "handles w' = handles w \<Longrightarrow> handles_extend w w'"
  by (simp add: handles_extend_def)

lemma py_close_extend: "handles_extend w (py_close h w)"
  by (auto simp: handles_extend_def py_close_def nth_list_update)

lemma py_close_closed:
  "h < length (handles w) \<Longrightarrow> h_closed (handles (py_close h w) ! h)"
  by (simp add: py_close_def)

lemma py_close_fields:
  "files (py_close h w) = files w" "lists (py_close h w) = lists w"
  "trace (py_close h w) = trace w" "length (handles (py_close h w)) = length (handles w)"
  "get_list (py_close h w) r = get_list w r"
  by (simp_all add: py_close_def get_list_def)

lemma py_open_result:
  assumes "py_open p m gz w = Inr (h, w')"
  shows "h = length (handles w)"
    and "handles w' = handles w @ [\<lparr>h_path = p, h_mode = m, h_gzip = gz, h_closed = False\<rparr>]"
    and "lists w' = lists w" and "trace w' = trace w"
    and "files w' = (case m of ModeR \<Rightarrow> files w | ModeW \<Rightarrow> (files w)(p \<mapsto> [])
                      | ModeA \<Rightarrow> (case files w p of None \<Rightarrow> (files w)(p \<mapsto> []) | Some c \<Rightarrow> files w))"
    and "files w' p \<noteq> None"
    and "poll_results w' = poll_results w" and "break_requests w' = break_requests w"
  using assms
  by (auto simp: py_open_def new_handle_def Let_def split: mode.splits option.splits)

lemma py_open_extend: "py_open p m gz w = Inr (h, w') \<Longrightarrow> handles_extend w w'"
  by (auto simp: handles_extend_def nth_append dest: py_open_result(2))

lemma py_write_handles: "py_write h t w = Inr w' \<Longrightarrow> handles w' = handles w \<and> lists w' = lists w \<and> trace w' = trace w"
  by (auto simp: py_write_def Let_def split: if_splits bool.splits pytext.splits)

lemma open_archive_extend:
  "open_archive g x m (a, w) = (r, a', w') \<Longrightarrow> handles_extend w w'"
  by (auto simp: open_archive_def Let_def handles_extend_refl handles_extend_def nth_append
           split: if_splits sum.splits prod.splits option.splits dest!: py_open_result(2))

lemma write_text_body_handles:
  "write_text_body t (a, w) = (r, a', w') \<Longrightarrow> handles w' = handles w \<and> a' = a"
  by (auto simp: write_text_body_def split: if_splits option.splits sum.splits dest: py_write_handles)

lemma rewrite_archive_extend:
  assumes "rewrite_archive E (a, w) = (r, a', w')"
  shows "handles_extend w w'"
proof -
  obtain r1 a1 w1 where o1: "open_archive None None ModeR (a, w) = (r1, a1, w1)"
    by (metis prod_cases3)
  have e1: "handles_extend w w1" using o1 by (rule open_archive_extend)
  show ?thesis
  proof (cases r1)
    case (Some e)
    with assms o1 show ?thesis using e1 by (simp add: rewrite_archive_def)
  next
    case None
    note r1 = this
    show ?thesis
    proof (cases "pointer_file a1")
      case None
      with assms o1 r1 show ?thesis using e1 by (simp add: rewrite_archive_def)
    next
      case (Some h)
      note h = this
      show ?thesis
      proof (cases "py_read h w1")
        case (Inl e)
        with assms o1 r1 h show ?thesis using e1 by (simp add: rewrite_archive_def)
      next
        case (Inr t)
        note t = this
        let ?w2 = "py_close h w1"
        have e2: "handles_extend w ?w2"
          using e1 py_close_extend by (rule handles_extend_trans)
        show ?thesis
        proof (cases "apply_regexes E a1 (get_list ?w2 (archive_regexes a1)) t")
          case (Inl e)
          with assms o1 r1 h t show ?thesis using e2 by (simp add: rewrite_archive_def Let_def)
        next
          case (Inr t')
          note t' = this
          obtain r2 a2 w3 where o2: "open_archive None None ModeW (a1, ?w2) = (r2, a2, w3)"
            by (metis prod_cases3)
          have e3: "handles_extend w w3"
            using e2 open_archive_extend [OF o2] by (rule handles_extend_trans)
          obtain r3 a3 w4 where wt: "write_text_body t' (a2, w3) = (r3, a3, w4)"
            by (metis prod_cases3)
          have e4: "handles_extend w w4"
            using e3 handles_extend_same write_text_body_handles [OF wt]
            by (metis handles_extend_trans)
          have e5: "handles_extend w (py_close k w4)" for k
            using e4 py_close_extend by (rule handles_extend_trans)
          from assms o1 r1 h t t' o2 wt show ?thesis using e3 e4 e5
            by (auto simp: rewrite_archive_def Let_def split: option.splits)
        qed
      qed
    qed
  qed
qed

lemma close_archive_no_raise: "fst (close_archive E s) = None"
  by (simp add: close_archive_def Let_def split: prod.splits option.splits)

lemma close_archive_nonroot: "\<not> is_root a \<Longrightarrow> close_archive E (a, w) = (None, a, w)"
  by (simp add: close_archive_def)

lemma close_archive_extend:
  assumes "close_archive E (a, w) = (r, a', w')"
  shows "handles_extend w w'"
proof (cases "is_root a")
  case False
  with assms show ?thesis by (simp add: close_archive_def handles_extend_refl)
next
  case True
  obtain a1 w1 where c: "(case pointer_cache a of Some c \<Rightarrow> (a\<lparr>pointer_cache := None\<rparr>, py_close c w)
                | None \<Rightarrow> (a, w)) = (a1, w1)" by (metis surj_pair)
  have e1: "handles_extend w w1" using c
    by (auto split: option.splits simp: handles_extend_refl py_close_extend)
  show ?thesis
  proof (cases "pointer_file a1")
    case None
    with assms True c e1 show ?thesis by (simp add: close_archive_def Let_def)
  next
    case (Some h)
    have e2: "handles_extend w (py_close h w1)"
      using e1 py_close_extend by (rule handles_extend_trans)
    show ?thesis
    proof (cases "get_list (py_close h w1) (archive_regexes (a1\<lparr>pointer_file := None\<rparr>)) \<noteq> []")
      case False
      with assms True c Some e2 show ?thesis by (auto simp: close_archive_def Let_def)
    next
      case nonempty: True
      obtain r4 a4 w4 where rw: "rewrite_archive E (a1\<lparr>pointer_file := None\<rparr>, py_close h w1) = (r4, a4, w4)"
        by (metis prod_cases3)
      have "handles_extend w w4"
        using e2 rewrite_archive_extend [OF rw] by (rule handles_extend_trans)
      with assms True c Some nonempty rw show ?thesis by (auto simp: close_archive_def Let_def)
    qed
  qed
qed

lemma close_archive_closes:
  assumes "close_archive E (a, w) = (r, a', w')" and "is_root a" and "pointer_file a = Some h"
    and "h < length (handles w)"
  shows "h < length (handles w') \<and> h_closed (handles w' ! h)"
proof -
  obtain a1 w1 where c: "(case pointer_cache a of Some c \<Rightarrow> (a\<lparr>pointer_cache := None\<rparr>, py_close c w)
                | None \<Rightarrow> (a, w)) = (a1, w1)" by (metis surj_pair)
  have pf: "pointer_file a1 = Some h" and len: "length (handles w1) = length (handles w)"
    and arx: "archive_regexes a1 = archive_regexes a"
    using c assms(3) by (auto split: option.splits simp: py_close_fields)
  let ?w2 = "py_close h w1"
  have cl: "h < length (handles ?w2) \<and> h_closed (handles ?w2 ! h)"
    using len assms(4) by (simp add: py_close_closed py_close_fields)
  have "handles_extend ?w2 w'"
  proof (cases "get_list ?w2 (archive_regexes a) \<noteq> []")
    case False
    with assms c pf arx show ?thesis by (auto simp: close_archive_def Let_def handles_extend_refl)
  next
    case True
    obtain r4 a4 w4 where rw: "rewrite_archive E (a1\<lparr>pointer_file := None\<rparr>, ?w2) = (r4, a4, w4)"
      by (metis prod_cases3)
    from assms c pf arx True rw have "w' = w4" by (auto simp: close_archive_def Let_def)
    with rewrite_archive_extend [OF rw] show ?thesis by simp
  qed
  with cl show ?thesis unfolding handles_extend_def by (meson order_less_le_trans)
qed


lemma apply_regex_cong:
  "ctx a = ctx b \<Longrightarrow> is_gzip a = is_gzip b \<Longrightarrow> apply_regex E a p t = apply_regex E b p t"
  by (simp add: apply_regex_def split: sum.splits)

lemma apply_elements_cong:
  "ctx a = ctx b \<Longrightarrow> is_gzip a = is_gzip b \<Longrightarrow>
   apply_elements E a x els t = apply_elements E b x els t"
  by (induction els arbitrary: t) (simp_all add: apply_regex_cong [of a b] split: sum.splits)

lemma apply_regexes_cong:
  "ctx a = ctx b \<Longrightarrow> is_gzip a = is_gzip b \<Longrightarrow>
   apply_regexes E a xs t = apply_regexes E b xs t"
  by (induction xs arbitrary: t) (simp_all add: apply_elements_cong [of a b] split: sum.splits)

lemma apply_regex_Str:
  "\<not> is_gzip a \<Longrightarrow> apply_regex E a p (Str c) = Inr t' \<Longrightarrow> \<exists>s. t' = Str s"
  by (auto simp: apply_regex_def split: sum.splits)

lemma apply_elements_Str:
  "\<not> is_gzip a \<Longrightarrow> apply_elements E a x els (Str c) = Inr t' \<Longrightarrow> \<exists>s. t' = Str s"
proof (induction els arbitrary: c)
  case Nil
  then show ?case by auto
next
  case (Cons el els)
  from Cons.prems obtain t1 where t1: "apply_regex E a (x @ ''/'' @ el) (Str c) = Inr t1"
    and r: "apply_elements E a x els t1 = Inr t'"
    by (auto split: sum.splits)
  from apply_regex_Str [OF Cons.prems(1) t1] obtain s1 where "t1 = Str s1" ..
  with r Cons.IH [OF Cons.prems(1)] show ?case by simp
qed

lemma apply_regexes_Str:
  "\<not> is_gzip a \<Longrightarrow> apply_regexes E a xs (Str c) = Inr t' \<Longrightarrow> \<exists>s. t' = Str s"
proof (induction xs arbitrary: c)
  case Nil
  then show ?case by auto
next
  case (Cons x xs)
  from Cons.prems obtain t1 where t1: "apply_elements E a x (list_elements E x) (Str c) = Inr t1"
    and r: "apply_regexes E a xs t1 = Inr t'"
    by (auto split: sum.splits)
  from apply_elements_Str [OF Cons.prems(1) t1] obtain s1 where "t1 = Str s1" ..
  with r Cons.IH [OF Cons.prems(1)] show ?case by simp
qed

lemma open_archive_fails:
  "open_archive g x m (a, w) = (Some e, a', w') \<Longrightarrow> w' = w"
  by (auto simp: open_archive_def Let_def split: if_splits sum.splits prod.splits)

lemma open_archive_None:
  assumes "open_archive g x m (a, w) = (None, a', w')"
  shows "archive_name (ctx a) \<noteq> [] \<and>
     a' = a\<lparr>is_gzip := (case g of None \<Rightarrow> is_gzip a | Some b \<Rightarrow> b),
            is_exec := (case x of None \<Rightarrow> is_exec a | Some b \<Rightarrow> b),
            pointer_file := Some (length (handles w)), is_root := True\<rparr> \<and>
     (\<exists>w1. py_open (archive_file a) m (is_gzip a') w = Inr (length (handles w), w1) \<and>
        w' = (if is_exec a' then w1\<lparr>exec_bits := insert (archive_file a) (exec_bits w1)\<rparr> else w1))"
proof -
  let ?a2 = "a\<lparr>is_gzip := (case g of None \<Rightarrow> is_gzip a | Some b \<Rightarrow> b),
            is_exec := (case x of None \<Rightarrow> is_exec a | Some b \<Rightarrow> b)\<rparr>"
  have a2: "(case x of None \<Rightarrow> (case g of None \<Rightarrow> a | Some b \<Rightarrow> a\<lparr>is_gzip := b\<rparr>)
             | Some y \<Rightarrow> (case g of None \<Rightarrow> a | Some b \<Rightarrow> a\<lparr>is_gzip := b\<rparr>)\<lparr>is_exec := y\<rparr>) = ?a2"
    by (cases g; cases x) simp_all
  have eq: "open_archive g x m (a, w) =
     (if archive_name (ctx a) \<noteq> [] then
        (case py_open (archive_file a) m (is_gzip ?a2) w of
           Inl e \<Rightarrow> (Some (RibmosaicError ''Could not open archive''), ?a2, w)
         | Inr (h, w1) \<Rightarrow>
             (None, ?a2\<lparr>pointer_file := Some h, is_root := True\<rparr>,
              if is_exec ?a2 then w1\<lparr>exec_bits := insert (archive_file a) (exec_bits w1)\<rparr> else w1))
      else (Some (RibmosaicError ''Archive's path and name must be specified''), ?a2, w))"
    unfolding open_archive_def Let_def prod.case a2 archive_file_def
    by (simp split: sum.splits prod.splits)
  from assms have n: "archive_name (ctx a) \<noteq> []"
    unfolding eq by (simp split: if_splits)
  from assms n obtain h w1 where po: "py_open (archive_file a) m (is_gzip ?a2) w = Inr (h, w1)"
    and a': "a' = ?a2\<lparr>pointer_file := Some h, is_root := True\<rparr>"
    and w': "w' = (if is_exec ?a2 then w1\<lparr>exec_bits := insert (archive_file a) (exec_bits w1)\<rparr> else w1)"
    unfolding eq by (auto split: sum.splits prod.splits)
  from py_open_result(1) [OF po] have h: "h = length (handles w)" .
  from n po a' w' h show ?thesis by simp
qed

lemma open_archive_succeeds:
  assumes "open_archive g x m (a, w) = (None, a', w')"
  shows "is_root a'" and "pointer_file a' = Some (length (handles w))"
    and "handles w' = handles w @
           [\<lparr>h_path = archive_file a, h_mode = m, h_gzip = is_gzip a', h_closed = False\<rparr>]"
    and "lists w' = lists w" and "trace w' = trace w"
    and "ctx a' = ctx a" and "archive_regexes a' = archive_regexes a"
    and "target_regexes a' = target_regexes a" and "pointer_cache a' = pointer_cache a"
    and "is_gzip a' = (case g of None \<Rightarrow> is_gzip a | Some b \<Rightarrow> b)"
    and "archive_name (ctx a) \<noteq> []"
    and "files w' (archive_file a) \<noteq> None"
    and "files w' = (case m of ModeR \<Rightarrow> files w | ModeW \<Rightarrow> (files w)(archive_file a \<mapsto> [])
           | ModeA \<Rightarrow> (case files w (archive_file a) of
                         None \<Rightarrow> (files w)(archive_file a \<mapsto> []) | Some c \<Rightarrow> files w))"
    and "poll_results w' = poll_results w" and "break_requests w' = break_requests w"
proof -
  from open_archive_None [OF assms] obtain w1 where
    n: "archive_name (ctx a) \<noteq> []" and
    a': "a' = a\<lparr>is_gzip := (case g of None \<Rightarrow> is_gzip a | Some b \<Rightarrow> b),
            is_exec := (case x of None \<Rightarrow> is_exec a | Some b \<Rightarrow> b),
            pointer_file := Some (length (handles w)), is_root := True\<rparr>" and
    po: "py_open (archive_file a) m (is_gzip a') w = Inr (length (handles w), w1)" and
    w': "w' = (if is_exec a' then w1\<lparr>exec_bits := insert (archive_file a) (exec_bits w1)\<rparr> else w1)"
    by blast
  note r = py_open_result [OF po]
  show "is_root a'" "pointer_file a' = Some (length (handles w))"
    "ctx a' = ctx a" "archive_regexes a' = archive_regexes a"
    "target_regexes a' = target_regexes a" "pointer_cache a' = pointer_cache a"
    "is_gzip a' = (case g of None \<Rightarrow> is_gzip a | Some b \<Rightarrow> b)"
    by (simp_all add: a')
  show "archive_name (ctx a) \<noteq> []" by (rule n)
  show "handles w' = handles w @
           [\<lparr>h_path = archive_file a, h_mode = m, h_gzip = is_gzip a', h_closed = False\<rparr>]"
    using r(2) w' by simp
  show "lists w' = lists w" using r(3) w' by simp
  show "trace w' = trace w" using r(4) w' by simp
  show "files w' (archive_file a) \<noteq> None" using r(6) w' by simp
  show "files w' = (case m of ModeR \<Rightarrow> files w | ModeW \<Rightarrow> (files w)(archive_file a \<mapsto> [])
           | ModeA \<Rightarrow> (case files w (archive_file a) of
                         None \<Rightarrow> (files w)(archive_file a \<mapsto> []) | Some c \<Rightarrow> files w))"
    using r(5) w' by simp
  show "poll_results w' = poll_results w" using r(7) w' by simp
  show "break_requests w' = break_requests w" using r(8) w' by simp
qed

lemma open_archive_read:
  assumes "archive_name (ctx a) \<noteq> []" and "files w (archive_file a) = Some c"
  shows "\<exists>a' w'. open_archive None None ModeR (a, w) = (None, a', w')"
  using assms
  by (auto simp: open_archive_def archive_file_def Let_def py_open_def new_handle_def)

lemma open_archive_write:
  assumes "archive_name (ctx a) \<noteq> []"
  shows "\<exists>a' w'. open_archive None None ModeW (a, w) = (None, a', w')"
  using assms
  by (auto simp: open_archive_def archive_file_def Let_def py_open_def new_handle_def)

lemma rewrite_archive_apply_fails:
  assumes "files w (archive_file a) = Some c"
    and "apply_regexes E a (get_list w (archive_regexes a)) (file_text a c) = Inl e"
  shows "files (snd (snd (rewrite_archive E (a, w)))) = files w"
proof -
  obtain r1 a1 w1 where o1: "open_archive None None ModeR (a, w) = (r1, a1, w1)"
    by (metis prod_cases3)
  show ?thesis
  proof (cases r1)
    case (Some e1)
    with o1 have "w1 = w" by (auto dest: open_archive_fails)
    with o1 Some show ?thesis by (simp add: rewrite_archive_def)
  next
    case None
    note ok = open_archive_succeeds [OF o1 [unfolded None]]
    let ?h = "length (handles w)"
    have f1: "files w1 = files w" using ok(13) by simp
    have rd: "py_read ?h w1 = Inr (file_text a c)"
      using ok(3,10) f1 assms(1) by (simp add: py_read_def file_text_def Let_def)
    have gl: "get_list (py_close ?h w1) (archive_regexes a1) = get_list w (archive_regexes a)"
      using ok(4,7) by (simp add: py_close_fields get_list_def)
    have "apply_regexes E a1 (get_list w (archive_regexes a)) (file_text a c) = Inl e"
      using assms(2) apply_regexes_cong [of a1 a] ok(6,10) by simp
    with o1 None ok(2) rd gl f1 show ?thesis
      by (simp add: rewrite_archive_def Let_def py_close_fields)
  qed
qed

lemma rewrite_archive_text:
  assumes "archive_name (ctx a) \<noteq> []" and "\<not> is_gzip a"
    and "files w (archive_file a) = Some c"
    and "apply_regexes E a (get_list w (archive_regexes a)) (Str c) = Inr t'"
  shows "\<exists>a' w'. rewrite_archive E (a, w) = (None, a', w') \<and>
           files w' = (files w)(archive_file a \<mapsto> payload t')"
proof -
  from open_archive_read [OF assms(1,3)]
  obtain a1 w1 where o1: "open_archive None None ModeR (a, w) = (None, a1, w1)" by blast
  note ok = open_archive_succeeds [OF o1]
  let ?h = "length (handles w)"
  have f1: "files w1 = files w" using ok(13) by simp
  have gz1: "\<not> is_gzip a1" using ok(10) assms(2) by simp
  have rd: "py_read ?h w1 = Inr (Str c)"
    using ok(3) gz1 f1 assms(3) by (simp add: py_read_def Let_def)
  let ?w2 = "py_close ?h w1"
  have gl: "get_list ?w2 (archive_regexes a1) = get_list w (archive_regexes a)"
    using ok(4,7) by (simp add: py_close_fields get_list_def)
  have ap: "apply_regexes E a1 (get_list w (archive_regexes a)) (Str c) = Inr t'"
    using assms(4) apply_regexes_cong [of a1 a] ok(6,10) by simp
  from apply_regexes_Str [OF assms(2,4)] obtain s where s: "t' = Str s" ..
  have n1: "archive_name (ctx a1) \<noteq> []" using ok(6) assms(1) by simp
  from open_archive_write [OF n1]
  obtain a2 w3 where o2: "open_archive None None ModeW (a1, ?w2) = (None, a2, w3)" by blast
  note ok2 = open_archive_succeeds [OF o2]
  have af: "archive_file a1 = archive_file a" using ok(6) by (simp add: archive_file_def)
  have f3: "files w3 = (files w)(archive_file a \<mapsto> [])"
    using ok2(13) af f1 by (simp add: py_close_fields)
  have gz2: "\<not> is_gzip a2" using ok2(10) gz1 by simp
  let ?h' = "length (handles ?w2)"
  have wt: "\<exists>w4. write_text_body t' (a2, w3) = (None, a2, w4) \<and>
              files w4 = (files w)(archive_file a \<mapsto> s) \<and> handles w4 = handles w3"
    using ok2(2,3) gz2 f3 s af
    by (cases "s = []")
       (auto simp: write_text_body_def truthy_def py_write_def Let_def)
  then obtain w4 where w4: "write_text_body t' (a2, w3) = (None, a2, w4)"
    and f4: "files w4 = (files w)(archive_file a \<mapsto> s)" by blast
  from o1 ok(2) rd gl ap o2 w4 ok2(2) f4 s show ?thesis
    by (simp add: rewrite_archive_def Let_def py_close_fields)
qed

lemma close_archive_text:
  assumes "is_root a" and "pointer_file a = Some h" and "archive_name (ctx a) \<noteq> []"
    and "\<not> is_gzip a" and "get_list w (archive_regexes a) \<noteq> []"
    and "files w (archive_file a) = Some c"
    and "apply_regexes E a (get_list w (archive_regexes a)) (Str c) = Inr t'"
  shows "\<exists>a' w'. close_archive E (a, w) = (None, a', w') \<and>
           files w' = (files w)(archive_file a \<mapsto> payload t')"
proof -
  obtain a1 w1 where c: "(case pointer_cache a of Some c \<Rightarrow> (a\<lparr>pointer_cache := None\<rparr>, py_close c w)
                | None \<Rightarrow> (a, w)) = (a1, w1)" by (metis surj_pair)
  let ?a2 = "a1\<lparr>pointer_file := None\<rparr>"
  let ?w2 = "py_close h w1"
  have a1: "pointer_file a1 = Some h" "ctx ?a2 = ctx a" "is_gzip ?a2 = is_gzip a"
    "archive_regexes ?a2 = archive_regexes a" "archive_file ?a2 = archive_file a"
    and w2: "files ?w2 = files w" "get_list ?w2 r = get_list w r" for r
    using c assms(2) by (auto split: option.splits simp: py_close_fields archive_file_def)
  have ap: "apply_regexes E ?a2 (get_list ?w2 (archive_regexes ?a2)) (Str c) = Inr t'"
    using assms(7) apply_regexes_cong [of ?a2 a] a1 w2 by simp
  from rewrite_archive_text [of ?a2 ?w2 c E t'] assms(3,4,6) a1 w2 ap
  obtain a' w' where rw: "rewrite_archive E (?a2, ?w2) = (None, a', w')"
    and f: "files w' = (files w)(archive_file a \<mapsto> payload t')"
    by auto
  from assms(1,5) c a1 w2 rw f show ?thesis
    by (simp add: close_archive_def Let_def)
qed

subsection \<open>Terminating a command\<close>

text \<open>
  C10: \<^verbatim>\<open>terminate_command\<close> never raises, whatever the state of the command and
  whatever the operating system answers: without a process object both attempts fail on
  the attribute access, with one both signals may be refused, and in every case the call
  returns normally and leaves the command object as it was.
\<close>

theorem terminate_command_never_raises:
  "fst (terminate_command E (c, w)) = None \<and> fst (snd (terminate_command E (c, w))) = c"
  by (simp add: terminate_command_def split: prod.splits option.splits)

subsection \<open>Writing to an archive without open file\<close>

lemma closed_example_not_open:
  "handle_not_open (fst closed_example) (snd closed_example)"
  by (simp add: closed_example_def handle_not_open_def eval_defs Let_def)

text \<open>
  C4, the claim as stated fails: on the closed archive \<^verbatim>\<open>./a.rib\<close> the call
  \<^verbatim>\<open>write_text("")\<close> returns normally and changes nothing, because the body of
  \<^verbatim>\<open>write_text\<close> is guarded by \<^verbatim>\<open>if text:\<close>.
\<close>

theorem write_text_empty_counterexample:
  "handle_not_open (fst closed_example) (snd closed_example) \<and>
   write_text example_env (Str []) False closed_example = (None, closed_example)"
  by (simp add: closed_example_def handle_not_open_def eval_defs Let_def)

text \<open>
  C4, amended: for every archive without open file and every non-empty text,
  \<^verbatim>\<open>write_text\<close> raises, whatever its \<^verbatim>\<open>close\<close> argument is, and nothing is written: the
  archive and the world are as before the call.
\<close>

theorem write_text_closed_raises:
  assumes "handle_not_open a w" and "truthy t"
  shows "\<exists>e. write_text E t cl (a, w) = (Some e, a, w)"
  using assms
  by (auto simp: handle_not_open_def write_text_def write_text_body_def py_write_def Let_def
           split: option.splits sum.splits if_splits)

theorem write_text_closed_raises_witness:
  "handle_not_open (fst closed_example) (snd closed_example) \<and> truthy (Str ''x'') \<and>
   (\<exists>e. write_text example_env (Str ''x'') False closed_example = (Some e, closed_example))"
proof -
  have h: "handle_not_open (fst closed_example) (snd closed_example)"
    by (rule closed_example_not_open)
  have t: "truthy (Str ''x'')" by (simp add: truthy_def)
  from write_text_closed_raises [OF _ t, of "fst closed_example" "snd closed_example" example_env False] h t
  show ?thesis by simp
qed

subsection \<open>Evaluated examples\<close>

lemma parent_example_eq:
  "parent_example =
    (\<lparr>ctx = \<lparr>pointer_datablock = None, archive_path = ''./'', archive_name = ''a.rib'',
              target_path = [], target_name = []\<rparr>,
      is_root = True, is_gzip = False, is_exec = False, pointer_file = Some 0,
      pointer_cache = None, archive_regexes = 2, target_regexes = 3\<rparr>,
     \<lparr>files = [''./a.rib'' \<mapsto> []], exec_bits = {},
      handles = [\<lparr>h_path = ''./a.rib'', h_mode = ModeW, h_gzip = False, h_closed = False\<rparr>],
      lists = [[], [], [], []], trace = [], poll_results = [],
      break_requests = []\<rparr>)"
  by (simp add: parent_example_def eval_defs Let_def)

lemma written_text:
  "written_example False ''P/C/N/regexes'' =
    (\<lparr>ctx = \<lparr>pointer_datablock = None, archive_path = ''./'', archive_name = ''a.rib'',
              target_path = [], target_name = []\<rparr>,
      is_root = True, is_gzip = False, is_exec = False, pointer_file = Some 0,
      pointer_cache = None, archive_regexes = 2, target_regexes = 3\<rparr>,
     \<lparr>files = [''./a.rib'' \<mapsto> ''foo bar foo''], exec_bits = {},
      handles = [\<lparr>h_path = ''./a.rib'', h_mode = ModeW, h_gzip = False, h_closed = False\<rparr>],
      lists = [[], [], [''P/C/N/regexes''], []], trace = [], poll_results = [],
      break_requests = []\<rparr>)"
  by (simp add: written_example_def eval_defs Let_def)

lemma written_fail_eq:
  "written_example False ''P/C/B/regexes'' =
    (\<lparr>ctx = \<lparr>pointer_datablock = None, archive_path = ''./'', archive_name = ''a.rib'',
              target_path = [], target_name = []\<rparr>,
      is_root = True, is_gzip = False, is_exec = False, pointer_file = Some 0,
      pointer_cache = None, archive_regexes = 2, target_regexes = 3\<rparr>,
     \<lparr>files = [''./a.rib'' \<mapsto> ''foo bar foo''], exec_bits = {},
      handles = [\<lparr>h_path = ''./a.rib'', h_mode = ModeW, h_gzip = False, h_closed = False\<rparr>],
      lists = [[], [], [''P/C/B/regexes''], []], trace = [], poll_results = [],
      break_requests = []\<rparr>)"
  by (simp add: written_example_def eval_defs Let_def)

lemma reopened_example_eq:
  "reopened_example =
    (None,
     \<lparr>ctx = \<lparr>pointer_datablock = None, archive_path = ''./'', archive_name = ''a.rib'',
              target_path = [], target_name = []\<rparr>,
      is_root = True, is_gzip = False, is_exec = False, pointer_file = Some 1,
      pointer_cache = None, archive_regexes = 2, target_regexes = 3\<rparr>,
     \<lparr>files = [''./a.rib'' \<mapsto> ''foo bar foo''], exec_bits = {},
      handles = [\<lparr>h_path = ''./a.rib'', h_mode = ModeW, h_gzip = False, h_closed = False\<rparr>,
                 \<lparr>h_path = ''./a.rib'', h_mode = ModeR, h_gzip = False, h_closed = False\<rparr>],
      lists = [[], [], [''P/C/N/regexes''], []], trace = [], poll_results = [],
      break_requests = []\<rparr>)"
  by (simp add: reopened_example_def written_text) (simp add: eval_defs Let_def)

subsection \<open>Rule lists of archives constructed from one export object\<close>

lemma init_not_file:
  assumes "\<forall>p. eo \<noteq> File p" and "ExporterArchive_init eo ap an w = (a, w1)"
  shows "archive_regexes a = length (lists w)" and "target_regexes a = Suc (length (lists w))"
    and "length (lists w1) = Suc (Suc (length (lists w)))"
proof -
  let ?c = "ExportContext_init eo"
  obtain l1 l2 where l: "list_copy class_archive_regexes w = (length (lists w), w\<lparr>lists := lists w @ [l1]\<rparr>)"
    "list_copy class_target_regexes (w\<lparr>lists := lists w @ [l1]\<rparr>)
       = (Suc (length (lists w)), w\<lparr>lists := lists w @ [l1, l2]\<rparr>)"
    by (simp add: list_copy_def list_new_def)
  let ?a0 = "\<lparr>ctx = ?c, is_root = True, is_gzip = False, is_exec = False,
              pointer_file = None, pointer_cache = None,
              archive_regexes = length (lists w), target_regexes = Suc (length (lists w))\<rparr>"
  let ?w0 = "w\<lparr>lists := lists w @ [l1, l2]\<rparr>"
  have br: "(case eo of File p \<Rightarrow> f p | _ \<Rightarrow> d) = d" for f :: "archive \<Rightarrow> archive \<times> world" and d
    using assms(1) by (cases eo) simp_all
  have "ExporterArchive_init eo ap an w =
     (let a1 = (if ap \<noteq> [] then ?a0\<lparr>ctx := (ctx ?a0)\<lparr>archive_path := ap\<rparr>\<rparr> else ?a0);
          a2 = (if an \<noteq> [] then a1\<lparr>ctx := (ctx a1)\<lparr>archive_name := an\<rparr>\<rparr> else a1)
      in (a2, ?w0))"
    unfolding ExporterArchive_init_def br
    by (simp add: l Let_def)
  with assms(2) show "archive_regexes a = length (lists w)"
    "target_regexes a = Suc (length (lists w))"
    "length (lists w1) = Suc (Suc (length (lists w)))"
    by (auto simp: Let_def split: if_splits)
qed

lemma init_file:
  assumes "ExporterArchive_init (File p) ap an w = (a, w1)"
  shows "w1 = w" and "\<not> is_root a" and "pointer_file a = pointer_file p"
    and "archive_regexes a = archive_regexes p" and "target_regexes a = target_regexes p"
    and "pointer_cache a = pointer_cache p" and "is_gzip a = is_gzip p"
  using assms
  by (auto simp: ExporterArchive_init_def Let_def split: if_splits)

lemma add_regexes_lists:
  assumes "add_regexes E x (a, w) = (r, a', w')"
  shows "length (lists w') = length (lists w)"
    and "k \<noteq> archive_regexes a \<Longrightarrow> k \<noteq> target_regexes a \<Longrightarrow> get_list w' k = get_list w k"
  using assms
  by (auto simp: add_regexes_def list_append_def get_list_def Let_def
           split: if_splits sum.splits)

text \<open>
  C3, the claim as stated fails: two archives constructed from the same open archive hold
  the very list objects of their parent, so a rule registered through one of them shows
  in the rule list of the other.
\<close>

theorem sibling_lists_shared_counterexample:
  "(let (p, w) = parent_example;
        (a, w1) = ExporterArchive_init (File p) [] [] w;
        (b, w2) = ExporterArchive_init (File p) [] [] w1;
        w3 = snd (snd (add_regexes example_env ''P/C/N/regexes'' (a, w2)))
    in get_list w2 (archive_regexes b) = [] \<and>
       get_list w3 (archive_regexes b) = [''P/C/N/regexes''])"
  by (simp add: parent_example_eq) (simp add: eval_defs Let_def)

text \<open>
  C3, amended: two archives constructed from the same export object that is no archive
  (\<^verbatim>\<open>None\<close> or a plain export context) have rule lists of their own: whatever path is
  registered through \<^verbatim>\<open>add_regexes\<close> on either of them, both rule lists of the other one
  stay as they were.
\<close>

theorem sibling_lists_independent:
  assumes "\<forall>p. eo \<noteq> File p"
    and "ExporterArchive_init eo p1 n1 w = (a, w1)"
    and "ExporterArchive_init eo p2 n2 w1 = (b, w2)"
  shows "(\<forall>x. get_list (snd (snd (add_regexes E x (a, w2)))) (archive_regexes b)
               = get_list w2 (archive_regexes b) \<and>
              get_list (snd (snd (add_regexes E x (a, w2)))) (target_regexes b)
               = get_list w2 (target_regexes b) \<and>
              get_list (snd (snd (add_regexes E x (b, w2)))) (archive_regexes a)
               = get_list w2 (archive_regexes a) \<and>
              get_list (snd (snd (add_regexes E x (b, w2)))) (target_regexes a)
               = get_list w2 (target_regexes a))"
proof -
  note ia = init_not_file [OF assms(1,2)]
  note ib = init_not_file [OF assms(1,3)]
  have d: "archive_regexes b \<noteq> archive_regexes a" "archive_regexes b \<noteq> target_regexes a"
    "target_regexes b \<noteq> archive_regexes a" "target_regexes b \<noteq> target_regexes a"
    using ia ib by simp_all
  show ?thesis
  proof
    fix x
    obtain r a' w3 where xa: "add_regexes E x (a, w2) = (r, a', w3)" by (metis prod_cases3)
    obtain r' b' w3' where xb: "add_regexes E x (b, w2) = (r', b', w3')" by (metis prod_cases3)
    have "get_list w3 (archive_regexes b) = get_list w2 (archive_regexes b)"
      "get_list w3 (target_regexes b) = get_list w2 (target_regexes b)"
      "get_list w3' (archive_regexes a) = get_list w2 (archive_regexes a)"
      "get_list w3' (target_regexes a) = get_list w2 (target_regexes a)"
      using add_regexes_lists(2) [OF xa] add_regexes_lists(2) [OF xb] d by simp_all
    with xa xb show "get_list (snd (snd (add_regexes E x (a, w2)))) (archive_regexes b)
               = get_list w2 (archive_regexes b) \<and>
              get_list (snd (snd (add_regexes E x (a, w2)))) (target_regexes b)
               = get_list w2 (target_regexes b) \<and>
              get_list (snd (snd (add_regexes E x (b, w2)))) (archive_regexes a)
               = get_list w2 (archive_regexes a) \<and>
              get_list (snd (snd (add_regexes E x (b, w2)))) (target_regexes a)
               = get_list w2 (target_regexes a)"
      by simp
  qed
qed

theorem sibling_lists_independent_witness:
  "(\<forall>p. PyNone \<noteq> File p) \<and>
   get_list (snd sibling_b) (archive_regexes (fst sibling_b)) = [] \<and>
   get_list (snd (snd (add_regexes example_env ''P/C/N/regexes'' (fst sibling_a, snd sibling_b))))
      (archive_regexes (fst sibling_b)) = [] \<and>
   get_list (snd (snd (add_regexes example_env ''P/C/N/regexes'' (fst sibling_a, snd sibling_b))))
      (archive_regexes (fst sibling_a)) = [''P/C/N/regexes'']"
proof -
  have n: "\<forall>p. PyNone \<noteq> File p" by simp
  have a: "ExporterArchive_init PyNone ''./'' ''a.rib'' initial_world = (fst sibling_a, snd sibling_a)"
    by (simp add: sibling_a_def)
  have b: "ExporterArchive_init PyNone ''./'' ''b.rib'' (snd sibling_a) = (fst sibling_b, snd sibling_b)"
    by (simp add: sibling_b_def)
  have e: "get_list (snd sibling_b) (archive_regexes (fst sibling_b)) = []"
    "get_list (snd (snd (add_regexes example_env ''P/C/N/regexes'' (fst sibling_a, snd sibling_b))))
      (archive_regexes (fst sibling_a)) = [''P/C/N/regexes'']"
    by (simp_all add: sibling_a_def sibling_b_def eval_defs Let_def)
  from sibling_lists_independent [OF n a b, of example_env] n e show ?thesis by simp
qed

subsection \<open>Closing an archive that is not the root\<close>

text \<open>
  C5: an archive constructed from an archive is no root and holds the file object of its
  parent; \<^verbatim>\<open>close_archive\<close> on it, as on every archive that is no root, returns without
  changing the archive or the world, so the shared file object stays as it was. Closing
  the root archive closes that file object.
\<close>

theorem nonroot_close_is_noop:
  assumes "ExporterArchive_init (File p) ap an w = (a, w1)"
  shows "w1 = w \<and> \<not> is_root a \<and> pointer_file a = pointer_file p \<and>
         close_archive E (a, w1) = (None, a, w1) \<and>
         (\<forall>b u. \<not> is_root b \<longrightarrow> close_archive E (b, u) = (None, b, u)) \<and>
         (\<forall>h. is_root p \<and> pointer_file p = Some h \<and> h < length (handles w) \<longrightarrow>
              h_closed (handles (snd (snd (close_archive E (p, w)))) ! h))"
proof -
  note i = init_file [OF assms]
  have "h_closed (handles (snd (snd (close_archive E (p, w)))) ! h)"
    if "is_root p" "pointer_file p = Some h" "h < length (handles w)" for h
  proof -
    obtain r p' w' where c: "close_archive E (p, w) = (r, p', w')" by (metis prod_cases3)
    from close_archive_closes [OF c that] c show ?thesis by simp
  qed
  with i show ?thesis by (simp add: close_archive_nonroot)
qed

theorem nonroot_close_is_noop_witness:
  "ExporterArchive_init (File (fst parent_example)) [] [] (snd parent_example)
     = (child_example, snd parent_example) \<and>
   \<not> is_root child_example \<and>
   close_archive example_env (child_example, snd parent_example)
     = (None, child_example, snd parent_example) \<and>
   \<not> h_closed (handles (snd parent_example) ! 0) \<and>
   h_closed (handles (snd (snd (close_archive example_env parent_example))) ! 0)"
proof -
  have i: "ExporterArchive_init (File (fst parent_example)) [] [] (snd parent_example)
     = (child_example, snd parent_example)"
    by (simp add: child_example_def parent_example_eq ExporterArchive_init_def
          ExportContext_init_def Let_def)
  have p: "is_root (fst parent_example)" "pointer_file (fst parent_example) = Some 0"
    "0 < length (handles (snd parent_example))" "\<not> h_closed (handles (snd parent_example) ! 0)"
    by (simp_all add: parent_example_eq)
  from nonroot_close_is_noop [OF i, of example_env] i p show ?thesis by simp
qed

subsection \<open>Opening makes a root\<close>

text \<open>
  C9: every call of \<^verbatim>\<open>open_archive\<close> that returns normally leaves the archive a root,
  whatever it was before, holding a new open file object. \<^verbatim>\<open>close_archive\<close> then returns
  normally, closes that file object and, when rules are registered, rewrites the file: for
  a text archive whose rules apply without error the file holds the rewritten text.
\<close>

theorem open_archive_makes_root:
  assumes "open_archive g x m (a, w) = (None, a', w')"
  shows "is_root a' \<and> pointer_file a' = Some (length (handles w)) \<and>
         \<not> h_closed (handles w' ! length (handles w)) \<and>
         (\<exists>a'' w''. close_archive E (a', w') = (None, a'', w'') \<and>
            h_closed (handles w'' ! length (handles w)) \<and>
            (\<forall>c t'. get_list w' (archive_regexes a') \<noteq> [] \<and> \<not> is_gzip a' \<and>
                    files w' (archive_file a') = Some c \<and>
                    apply_regexes E a' (get_list w' (archive_regexes a')) (Str c) = Inr t'
                \<longrightarrow> files w'' = (files w')(archive_file a' \<mapsto> payload t')))"
proof -
  note ok = open_archive_succeeds [OF assms]
  let ?h = "length (handles w)"
  have open': "\<not> h_closed (handles w' ! ?h)" and lt: "?h < length (handles w')"
    using ok(3) by simp_all
  obtain r a'' w'' where c: "close_archive E (a', w') = (r, a'', w'')" by (metis prod_cases3)
  have r: "r = None" using close_archive_no_raise [of E "(a', w')"] c by simp
  from close_archive_closes [OF c ok(1,2) lt] have cl: "h_closed (handles w'' ! ?h)" by simp
  have n: "archive_name (ctx a') \<noteq> []" using ok(6,11) by simp
  have "files w'' = (files w')(archive_file a' \<mapsto> payload t')"
    if "get_list w' (archive_regexes a') \<noteq> []" "\<not> is_gzip a'"
       "files w' (archive_file a') = Some c'"
       "apply_regexes E a' (get_list w' (archive_regexes a')) (Str c') = Inr t'" for c' t'
    using close_archive_text [OF ok(1,2) n that(2,1,3,4)] c by simp
  with ok(1,2) open' c r cl show ?thesis by blast
qed


theorem open_archive_makes_root_witness:
  "(\<exists>c w. written_example False ''P/C/N/regexes'' = (fst (written_example False ''P/C/N/regexes''), w) \<and>
      ExporterArchive_init (File (fst (written_example False ''P/C/N/regexes''))) [] [] w = (c, w) \<and>
      \<not> is_root c \<and> open_archive None None ModeR (c, w) = reopened_example) \<and>
   is_root (fst (snd reopened_example)) \<and>
   (\<exists>a'' w''. close_archive example_env (snd reopened_example) = (None, a'', w'') \<and>
      h_closed (handles w'' ! 1) \<and> \<not> h_closed (handles w'' ! 0) \<and>
      files w'' ''./a.rib'' = Some ''baz bar foo'')"
proof -
  let ?c1 = "fst (snd reopened_example)" and ?w1 = "snd (snd reopened_example)"
  let ?p = "fst (written_example False ''P/C/N/regexes'')"
  let ?w = "snd (written_example False ''P/C/N/regexes'')"
  let ?c = "fst (ExporterArchive_init (File ?p) [] [] ?w)"
  have i: "ExporterArchive_init (File ?p) [] [] ?w = (?c, ?w)" "\<not> is_root ?c"
    by (simp_all add: written_text ExporterArchive_init_def ExportContext_init_def Let_def)
  have o': "open_archive None None ModeR (?c, ?w) = reopened_example"
    using i(1) by (simp add: reopened_example_def case_prod_beta Let_def)
  have "fst reopened_example = None" by (simp add: reopened_example_eq)
  then have re: "reopened_example = (None, ?c1, ?w1)" by (metis prod.collapse)
  have o: "open_archive None None ModeR (?c, ?w) = (None, ?c1, ?w1)"
    using o' re by simp
  have l: "length (handles ?w) = 1" by (simp add: written_text)
  have h: "get_list ?w1 (archive_regexes ?c1) \<noteq> [] \<and> \<not> is_gzip ?c1 \<and>
           files ?w1 (archive_file ?c1) = Some ''foo bar foo'' \<and>
           apply_regexes example_env ?c1 (get_list ?w1 (archive_regexes ?c1)) (Str ''foo bar foo'')
             = Inr (Str ''baz bar foo'')"
    by (simp add: reopened_example_eq archive_file_def)
       (simp add: eval_defs Let_def)
  from open_archive_makes_root [OF o, of example_env] l
  obtain a'' w'' where c: "close_archive example_env (?c1, ?w1) = (None, a'', w'')"
    and cl: "h_closed (handles w'' ! 1)"
    and rw: "\<And>c t'. get_list ?w1 (archive_regexes ?c1) \<noteq> [] \<and> \<not> is_gzip ?c1 \<and>
                    files ?w1 (archive_file ?c1) = Some c \<and>
                    apply_regexes example_env ?c1 (get_list ?w1 (archive_regexes ?c1)) (Str c)
                      = Inr t'
                \<Longrightarrow> files w'' = (files ?w1)(archive_file ?c1 \<mapsto> payload t')"
    by auto
  from rw [OF h] have f: "files w'' ''./a.rib'' = Some ''baz bar foo''"
    by (simp add: reopened_example_eq archive_file_def)
  have op: "\<not> h_closed (handles w'' ! 0)"
    using c by (simp add: reopened_example_eq) (auto simp add: eval_defs Let_def)
  have r: "is_root ?c1" by (simp add: reopened_example_eq)
  from i o' c cl f op r show ?thesis
    by (intro conjI exI [of _ ?c] exI [of _ ?w] exI [of _ a''] exI [of _ w'']) simp_all
qed

subsection \<open>A failing rule at close\<close>

text \<open>
  C6: when the root archive holds a file object, rules are registered and applying them to
  the text of the file raises (an attribute cannot be resolved, \<^verbatim>\<open>matches\<close> is no number,
  or \<^verbatim>\<open>re.sub\<close> fails), then \<^verbatim>\<open>close_archive\<close> returns normally and every file has the
  content it had before: the rules already applied in memory leave no trace.
\<close>

theorem close_archive_regex_failure_contained:
  assumes "is_root a" and "pointer_file a = Some h"
    and "get_list w (archive_regexes a) \<noteq> []"
    and "files w (archive_file a) = Some c"
    and "apply_regexes E a (get_list w (archive_regexes a)) (file_text a c) = Inl e"
  shows "\<exists>a' w'. close_archive E (a, w) = (None, a', w') \<and> files w' = files w"
proof -
  obtain a1 w1 where c: "(case pointer_cache a of Some c \<Rightarrow> (a\<lparr>pointer_cache := None\<rparr>, py_close c w)
                | None \<Rightarrow> (a, w)) = (a1, w1)" by (metis surj_pair)
  let ?a2 = "a1\<lparr>pointer_file := None\<rparr>"
  let ?w2 = "py_close h w1"
  have a1: "pointer_file a1 = Some h" "ctx ?a2 = ctx a" "is_gzip ?a2 = is_gzip a"
    "archive_regexes ?a2 = archive_regexes a" "archive_file ?a2 = archive_file a"
    "file_text ?a2 c = file_text a c"
    and w2: "files ?w2 = files w" "get_list ?w2 r = get_list w r" for r
    using c assms(2) by (auto split: option.splits simp: py_close_fields archive_file_def file_text_def)
  have ap: "apply_regexes E ?a2 (get_list ?w2 (archive_regexes ?a2)) (file_text ?a2 c) = Inl e"
    using assms(5) apply_regexes_cong [of ?a2 a] a1 w2 by simp
  obtain r4 a4 w4 where rw: "rewrite_archive E (?a2, ?w2) = (r4, a4, w4)"
    by (metis prod_cases3)
  have "files w4 = files w"
    using rewrite_archive_apply_fails [of ?w2 ?a2 c E e] assms(4) a1 w2 ap rw by simp
  with assms(1,3) c a1 w2 rw show ?thesis
    by (simp add: close_archive_def Let_def)
qed


theorem close_archive_regex_failure_contained_witness:
  "(let (a, w) = written_example False ''P/C/B/regexes'' in
     is_root a \<and> pointer_file a = Some 0 \<and> get_list w (archive_regexes a) \<noteq> [] \<and>
     files w (archive_file a) = Some ''foo bar foo'' \<and>
     apply_regexes example_env a (get_list w (archive_regexes a)) (file_text a ''foo bar foo'')
       = Inl ValueError \<and>
     (\<exists>a' w'. close_archive example_env (a, w) = (None, a', w') \<and> files w' = files w))"
proof -
  obtain a w where aw: "written_example False ''P/C/B/regexes'' = (a, w)" by (metis surj_pair)
  have h: "is_root a" "pointer_file a = Some 0" "get_list w (archive_regexes a) \<noteq> []"
    "files w (archive_file a) = Some ''foo bar foo''"
    "apply_regexes example_env a (get_list w (archive_regexes a)) (file_text a ''foo bar foo'')
       = Inl ValueError"
    using aw [unfolded written_fail_eq]
    by (auto simp: archive_file_def file_text_def get_list_def apply_regex_def py_int_def
          strip_blanks_def unsigned_int_def literal_sub_def example_attr_def example_env_def)
  from close_archive_regex_failure_contained [OF h] h aw show ?thesis by simp
qed

subsection \<open>The rewrite at close\<close>

text \<open>
  For a text archive the rewrite does what it is meant to do: the example file
  \<^verbatim>\<open>foo bar foo\<close> with the rule of panel \<^verbatim>\<open>P/C/N\<close> becomes \<^verbatim>\<open>baz bar foo\<close>.
\<close>

lemma text_example:
  "files (snd (snd (close_archive example_env (written_example False ''P/C/N/regexes'')))) ''./a.rib''
     = Some ''baz bar foo''"
  by (simp add: written_text) (simp add: eval_defs Let_def)

text \<open>
  C7, at a gzipped root archive with the same text and the same rule: the text read back
  is \<^verbatim>\<open>bytes\<close>, the rule is applied to it in memory, the file is reopened for writing
  (which empties it) and \<^verbatim>\<open>write_text\<close> calls \<^verbatim>\<open>encode\<close> on the \<^verbatim>\<open>bytes\<close>, which raises. The
  handler drops the exception, so \<^verbatim>\<open>close_archive\<close> returns normally and the file is left
  empty instead of holding \<^verbatim>\<open>baz bar foo\<close>.
\<close>

theorem gzip_rewrite_loses_text:
  "fst (close_archive example_env (written_example True ''P/C/N/regexes'')) = None \<and>
   files (snd (snd (close_archive example_env (written_example True ''P/C/N/regexes'')))) ''./a.rib''
     = Some []"
  by (simp add: written_example_def eval_defs Let_def)

subsection \<open>Passes and frames\<close>

lemma pos_range:
  fixes a b s f :: int
  assumes "0 < s"
  shows "(a \<le> f \<and> f < b \<and> (f - a) mod s = 0) \<longleftrightarrow>
         (\<exists>k. k < (if b \<le> a then 0 else nat ((b - a - 1) div s + 1)) \<and> f = a + int k * s)"
proof
  assume h: "a \<le> f \<and> f < b \<and> (f - a) mod s = 0"
  let ?k = "nat ((f - a) div s)"
  from h assms have d: "0 \<le> (f - a) div s" by (simp add: pos_imp_zdiv_nonneg_iff)
  from h have "f - a = (f - a) div s * s" by (metis mult.commute mult_div_mod_eq add.right_neutral)
  with d have f: "f = a + int ?k * s" by simp
  from h have "f - a \<le> b - a - 1" by simp
  then have "(f - a) div s \<le> (b - a - 1) div s" using assms by (rule zdiv_mono1)
  with d h have "?k < (if b \<le> a then 0 else nat ((b - a - 1) div s + 1))" by auto
  with f show "\<exists>k. k < (if b \<le> a then 0 else nat ((b - a - 1) div s + 1)) \<and> f = a + int k * s"
    by blast
next
  assume "\<exists>k. k < (if b \<le> a then 0 else nat ((b - a - 1) div s + 1)) \<and> f = a + int k * s"
  then obtain k where k: "k < (if b \<le> a then 0 else nat ((b - a - 1) div s + 1))"
    and f: "f = a + int k * s" by blast
  from k have ab: "a < b" by (auto split: if_splits)
  with k have "int k \<le> (b - a - 1) div s" by auto
  then have "int k * s \<le> (b - a - 1) div s * s" using assms by (simp add: mult_right_mono)
  also have "\<dots> \<le> b - a - 1" using assms
    by (metis mult.commute mult_div_mod_eq add_le_cancel_left pos_mod_sign add.right_neutral)
  finally have "f < b" using f by simp
  moreover have "a \<le> f" using f assms by simp
  moreover have "(f - a) mod s = 0" using f by simp
  ultimately show "a \<le> f \<and> f < b \<and> (f - a) mod s = 0" by blast
qed

lemma range_contains_elements:
  assumes "range_step r \<noteq> 0"
  shows "range_contains r f \<longleftrightarrow> f \<in> set (range_elements r)"
proof (cases "0 < range_step r")
  case True
  have "f \<in> set (range_elements r) \<longleftrightarrow>
        (\<exists>k. k < range_length r \<and> f = range_start r + int k * range_step r)"
    by (auto simp: range_elements_def)
  with True pos_range [OF True, of "range_start r" f "range_stop r"] show ?thesis
    by (simp add: range_contains_def range_length_def Let_def)
next
  case False
  let ?a = "range_start r" and ?b = "range_stop r" and ?s = "range_step r"
  from False assms have neg: "0 < - ?s" by simp
  have m: "(f - ?a) mod ?s = 0 \<longleftrightarrow> (- f - - ?a) mod (- ?s) = 0"
  proof -
    have "(- f - - ?a) = - (f - ?a)" by simp
    then show ?thesis by (metis mod_minus_minus neg_equal_0_iff_equal)
  qed
  have c: "range_contains r f \<longleftrightarrow> (- ?a \<le> - f \<and> - f < - ?b \<and> (- f - - ?a) mod (- ?s) = 0)"
    using False by (auto simp: range_contains_def m)
  have l: "(if - ?b \<le> - ?a then 0 else nat ((- ?b - - ?a - 1) div (- ?s) + 1)) = range_length r"
    using False by (simp add: range_length_def Let_def)
  have e: "(- f = - ?a + int k * (- ?s)) = (f = ?a + int k * ?s)" for k by auto
  have "range_contains r f \<longleftrightarrow>
        (\<exists>k. k < (if - ?b \<le> - ?a then 0 else nat ((- ?b - - ?a - 1) div (- ?s) + 1)) \<and>
             - f = - ?a + int k * (- ?s))"
    unfolding c by (rule pos_range [OF neg])
  also have "\<dots> \<longleftrightarrow> (\<exists>k. k < range_length r \<and> f = ?a + int k * ?s)"
    unfolding l e ..
  also have "\<dots> \<longleftrightarrow> f \<in> set (range_elements r)"
    by (auto simp: range_elements_def)
  finally show ?thesis .
qed

lemma pass_range_step: "pass_range sc p = Inr r \<Longrightarrow> range_step r \<noteq> 0"
  by (auto simp: pass_range_def py_range_def Let_def split: if_splits)

lemma update_pass_ranges_nth:
  "update_pass_ranges sc ps = Inr rs \<Longrightarrow>
   length rs = length ps \<and> (\<forall>i<length ps. pass_range sc (ps ! i) = Inr (rs ! i))"
proof (induction ps arbitrary: rs)
  case Nil
  then show ?case by auto
next
  case (Cons p ps)
  from Cons.prems obtain r rs' where r: "pass_range sc p = Inr r"
    and rs': "update_pass_ranges sc ps = Inr rs'" and rs: "rs = r # rs'"
    by (auto split: sum.splits)
  from Cons.IH [OF rs'] r rs show ?case by (auto simp: nth_Cons split: nat.splits)
qed

lemma export_rib_passes_sel:
  "i + length ps \<le> length rs \<Longrightarrow>
   \<exists>sel. export_rib_passes f rs i ps = Inr sel \<and>
     (\<forall>j. j \<in> set sel \<longleftrightarrow>
        i \<le> j \<and> j < i + length ps \<and> pass_enabled (ps ! (j - i)) \<and> range_contains (rs ! j) f)"
proof (induction ps arbitrary: i)
  case Nil
  then show ?case by simp
next
  case (Cons p ps)
  from Cons.prems have "Suc i + length ps \<le> length rs" by simp
  from Cons.IH [OF this] obtain sel where s: "export_rib_passes f rs (Suc i) ps = Inr sel"
    and m: "\<And>j. j \<in> set sel \<longleftrightarrow>
        Suc i \<le> j \<and> j < Suc i + length ps \<and> pass_enabled (ps ! (j - Suc i)) \<and> range_contains (rs ! j) f"
    by blast
  have nth: "(p # ps) ! (j - i) = (if j = i then p else ps ! (j - Suc i))" if "i \<le> j" for j
    using that by (auto simp: nth_Cons')
  let ?sel = "if pass_enabled p \<and> range_contains (rs ! i) f then i # sel else sel"
  have e: "export_rib_passes f rs i (p # ps) = Inr ?sel"
    using Cons.prems s by simp
  have "j \<in> set ?sel \<longleftrightarrow>
        i \<le> j \<and> j < i + length (p # ps) \<and> pass_enabled ((p # ps) ! (j - i)) \<and> range_contains (rs ! j) f"
    for j
  proof (cases "j = i")
    case True
    with m [of i] show ?thesis by auto
  next
    case False
    then have "(i \<le> j) = (Suc i \<le> j)" by auto
    with False m [of j] nth [of j] show ?thesis by auto
  qed
  with e show ?case by blast
qed

lemma example_pass_range:
  "pass_range sc example_pass = Inr \<lparr>range_start = 1, range_stop = 11, range_step = 2\<rparr>"
  by (simp add: pass_range_def example_pass_def py_range_def)

lemma example_range_elements:
  "range_elements \<lparr>range_start = 1, range_stop = 11, range_step = 2\<rparr> = [1, 3, 5, 7, 9]"
  by (simp add: range_elements_def range_length_def upt_rec [of 0 5] upt_rec [of 1 5]
        upt_rec [of 2 5] upt_rec [of 3 5] upt_rec [of 4 5] eval_nat_numeral)

text \<open>
  C8: with the ranges stored by \<^verbatim>\<open>_update_directory\<close> (for each pass
  \<^verbatim>\<open>range(start, end + 1, step)\<close>, a zero pass property replaced by the scene's value), the
  pass loop of \<^verbatim>\<open>export_rib\<close> at frame \<open>f\<close> enters its body for exactly the passes that
  are enabled and whose range has \<open>f\<close> among the frames it enumerates. The membership
  test of the code is arithmetic; the theorem relates it to the enumerated elements. For
  the pass with start 1, end 10 and step 2 these are the frames 1, 3, 5, 7, 9.
\<close>

theorem export_rib_pass_selection:
  assumes "update_pass_ranges sc ps = Inr rs"
  shows "\<exists>sel. export_rib_passes f rs 0 ps = Inr sel \<and>
     (\<forall>i. i \<in> set sel \<longleftrightarrow>
        i < length ps \<and> pass_enabled (ps ! i) \<and>
        (\<exists>r. pass_range sc (ps ! i) = Inr r \<and> f \<in> set (range_elements r)))"
proof -
  from update_pass_ranges_nth [OF assms] have l: "length rs = length ps"
    and n: "\<And>i. i < length ps \<Longrightarrow> pass_range sc (ps ! i) = Inr (rs ! i)" by auto
  from l have "0 + length ps \<le> length rs" by simp
  from export_rib_passes_sel [OF this, of f] obtain sel where
    s: "export_rib_passes f rs 0 ps = Inr sel" and
    m: "\<And>j. j \<in> set sel \<longleftrightarrow> j < length ps \<and> pass_enabled (ps ! j) \<and> range_contains (rs ! j) f"
    by auto
  have "i \<in> set sel \<longleftrightarrow>
        i < length ps \<and> pass_enabled (ps ! i) \<and>
        (\<exists>r. pass_range sc (ps ! i) = Inr r \<and> f \<in> set (range_elements r))" for i
  proof (cases "i < length ps")
    case True
    from n [OF True] have r: "pass_range sc (ps ! i) = Inr (rs ! i)" .
    from range_contains_elements [OF pass_range_step [OF r], of f] m [of i] r True
    show ?thesis by auto
  next
    case False
    with m [of i] show ?thesis by simp
  qed
  with s show ?thesis by blast
qed

theorem export_rib_pass_selection_witness:
  "update_pass_ranges example_scene [example_pass]
     = Inr [\<lparr>range_start = 1, range_stop = 11, range_step = 2\<rparr>] \<and>
   (\<forall>f. \<exists>sel. export_rib_passes f [\<lparr>range_start = 1, range_stop = 11, range_step = 2\<rparr>] 0
                  [example_pass] = Inr sel \<and>
               (0 \<in> set sel) = (f \<in> {1, 3, 5, 7, 9}))"
proof -
  have u: "update_pass_ranges example_scene [example_pass]
     = Inr [\<lparr>range_start = 1, range_stop = 11, range_step = 2\<rparr>]"
    by (simp add: example_pass_range)
  have "\<exists>sel. export_rib_passes f [\<lparr>range_start = 1, range_stop = 11, range_step = 2\<rparr>] 0
                  [example_pass] = Inr sel \<and>
               (0 \<in> set sel) = (f \<in> {1, 3, 5, 7, 9})" for f
  proof -
    from export_rib_pass_selection [OF u, of f] obtain sel where
      s: "export_rib_passes f [\<lparr>range_start = 1, range_stop = 11, range_step = 2\<rparr>] 0
                  [example_pass] = Inr sel" and
      m: "\<And>i. i \<in> set sel \<longleftrightarrow>
        i < length [example_pass] \<and> pass_enabled ([example_pass] ! i) \<and>
        (\<exists>r. pass_range example_scene ([example_pass] ! i) = Inr r \<and> f \<in> set (range_elements r))"
      by blast
    from m [of 0] have "(0 \<in> set sel) = (f \<in> {1, 3, 5, 7, 9})"
      by (simp add: example_pass_range example_range_elements) (simp add: example_pass_def)
    with s show ?thesis by blast
  qed
  with u show ?thesis by blast
qed


subsection \<open>Frame lemmas for archives\<close>

lemma same_ident_refl: "same_ident a a"
  by (simp add: same_ident_def)

lemma same_ident_trans: "same_ident a b \<Longrightarrow> same_ident b c \<Longrightarrow> same_ident a c"
  by (simp add: same_ident_def)

lemma same_ident_file: "same_ident a a' \<Longrightarrow> archive_file a' = archive_file a"
  by (simp add: same_ident_def archive_file_def)

lemma arch_frame_refl: "arch_frame prot w w"
  by (simp add: arch_frame_def handles_extend_refl)

lemma arch_frame_trans:
  assumes "arch_frame prot w1 w2" and "arch_frame prot w2 w3"
  shows "arch_frame prot w1 w3"
proof -
  have e: "handles_extend w1 w3"
    using assms by (auto simp: arch_frame_def intro: handles_extend_trans)
  have "handles w3 ! h = handles w1 ! h"
    if "h < length (handles w1)" "prot (h_path (handles w1 ! h))" for h
  proof -
    from assms(1) that have "handles w2 ! h = handles w1 ! h" "h < length (handles w2)"
      by (auto simp: arch_frame_def handles_extend_def)
    with assms(2) that show ?thesis by (auto simp: arch_frame_def)
  qed
  moreover have "\<exists>ys. lists w3 = lists w1 @ ys"
    using assms by (auto simp: arch_frame_def)
  ultimately show ?thesis using e assms by (simp add: arch_frame_def)
qed

lemma foreign_extend:
  "foreign prot a w \<Longrightarrow> handles_extend w w' \<Longrightarrow> foreign prot a w'"
  unfolding foreign_def handles_extend_def
  by (metis order_less_le_trans)

lemma foreign_frame:
  "foreign prot a w \<Longrightarrow> arch_frame prot w w' \<Longrightarrow> foreign prot a w'"
  by (auto simp: arch_frame_def intro: foreign_extend)

lemma py_close_other:
  "k \<noteq> h \<Longrightarrow> handles (py_close h w) ! k = handles w ! k"
  "poll_results (py_close h w) = poll_results w"
  "break_requests (py_close h w) = break_requests w"
  by (simp_all add: py_close_def)

lemma py_close_frame:
  assumes "h < length (handles w) \<Longrightarrow> \<not> prot (h_path (handles w ! h))"
  shows "arch_frame prot w (py_close h w)"
proof -
  have "handles (py_close h w) ! k = handles w ! k"
    if "k < length (handles w)" "prot (h_path (handles w ! k))" for k
  proof (cases "k = h")
    case True
    with that assms show ?thesis by simp
  next
    case False
    then show ?thesis by (rule py_close_other)
  qed
  then show ?thesis
    by (simp add: arch_frame_def py_close_extend py_close_fields py_close_other)
qed

lemma py_open_frame:
  assumes "py_open p m gz w = Inr (h, w')" and "\<not> prot p"
  shows "arch_frame prot w w'"
proof -
  note r = py_open_result [OF assms(1)]
  have "files w' q = files w q" if "prot q" for q
    using r(5) that assms(2) by (auto split: mode.splits option.splits)
  with r(2,3,4,7) py_open_extend [OF assms(1)] show ?thesis
    by (auto simp: arch_frame_def nth_append)
qed

lemma py_write_frame:
  assumes "py_write h t w = Inr w'" and "\<not> prot (h_path (handles w ! h))"
  shows "arch_frame prot w w'"
proof -
  from assms(1) have "handles w' = handles w" "trace w' = trace w"
    "poll_results w' = poll_results w" "lists w' = lists w"
    "\<And>q. q \<noteq> h_path (handles w ! h) \<Longrightarrow> files w' q = files w q"
    by (auto simp: py_write_def Let_def split: if_splits bool.splits pytext.splits)
  moreover have "files w' q = files w q" if "prot q" for q
  proof -
    from that assms(2) have "q \<noteq> h_path (handles w ! h)" by auto
    then show ?thesis by (rule \<open>\<And>q. q \<noteq> h_path (handles w ! h) \<Longrightarrow> files w' q = files w q\<close>)
  qed
  ultimately show ?thesis
    by (simp add: arch_frame_def handles_extend_same)
qed

lemma open_archive_frame:
  assumes "open_archive g x m (a, w) = (r, a', w')" and "foreign prot a w"
  shows "arch_frame prot w w'" and "foreign prot a' w'" and "same_ident a a'"
    and "pointer_cache a' = pointer_cache a"
proof -
  have "arch_frame prot w w' \<and> foreign prot a' w' \<and> same_ident a a' \<and>
        pointer_cache a' = pointer_cache a"
  proof (cases r)
    case None
    note ok = open_archive_succeeds [OF assms(1) [unfolded None]]
    from open_archive_None [OF assms(1) [unfolded None]] obtain w1 where
      po: "py_open (archive_file a) m (is_gzip a') w = Inr (length (handles w), w1)" and
      w': "w' = (if is_exec a' then w1\<lparr>exec_bits := insert (archive_file a) (exec_bits w1)\<rparr> else w1)"
      by blast
    from assms(2) have np: "\<not> prot (archive_file a)" by (simp add: foreign_def)
    from py_open_frame [where prot = prot, OF po np] w' have f: "arch_frame prot w w'"
      by (auto simp: arch_frame_def handles_extend_def)
    have si: "same_ident a a'" using ok(6,8) by (simp add: same_ident_def)
    have af: "archive_file a' = archive_file a" using ok(6) by (simp add: archive_file_def)
    have "foreign prot a' w'"
      using foreign_frame [OF assms(2) f] ok(2,3,9) np af
      by (simp add: foreign_def)
    with f si ok(9) show ?thesis by simp
  next
    case (Some e)
    with assms(1) have w: "w' = w" by (auto dest: open_archive_fails)
    from assms(1) Some have a': "ctx a' = ctx a" "pointer_file a' = pointer_file a"
      "pointer_cache a' = pointer_cache a" "target_regexes a' = target_regexes a"
      by (auto simp: open_archive_def Let_def split: if_splits sum.splits prod.splits option.splits)
    with assms(2) w show ?thesis
      by (simp add: arch_frame_refl foreign_def same_ident_def archive_file_def)
  qed
  then show "arch_frame prot w w'" and "foreign prot a' w'" and "same_ident a a'"
    and "pointer_cache a' = pointer_cache a" by simp_all
qed

lemma write_text_body_frame:
  assumes "write_text_body t (a, w) = (r, a', w')" and "foreign prot a w"
  shows "arch_frame prot w w'" and "a' = a"
proof -
  have "arch_frame prot w w' \<and> a' = a"
  proof (cases "truthy t")
    case False
    with assms(1) show ?thesis by (simp add: write_text_body_def arch_frame_refl)
  next
    case True
    show ?thesis
    proof (cases "pointer_file a")
      case None
      with assms(1) True show ?thesis by (simp add: write_text_body_def arch_frame_refl)
    next
      case (Some h)
      with assms(2) have np: "\<not> prot (h_path (handles w ! h))" by (simp add: foreign_def)
      have "py_write h b w = Inr w1 \<Longrightarrow> arch_frame prot w w1" for b w1
        using np py_write_frame [where prot = prot and h = h and w = w] by blast
      with assms(1) True Some show ?thesis
        by (auto simp: write_text_body_def arch_frame_refl split: if_splits sum.splits)
    qed
  qed
  then show "arch_frame prot w w'" and "a' = a" by simp_all
qed

lemma rewrite_archive_frame:
  assumes "rewrite_archive E (a, w) = (r, a', w')" and "foreign prot a w"
  shows "arch_frame prot w w'" and "foreign prot a' w'" and "same_ident a a'"
    and "pointer_cache a' = pointer_cache a"
proof -
  obtain r1 a1 w1 where o1: "open_archive None None ModeR (a, w) = (r1, a1, w1)"
    by (metis prod_cases3)
  note f1 = open_archive_frame [where prot = prot, OF o1 assms(2)]
  have "arch_frame prot w w' \<and> foreign prot a' w' \<and> same_ident a a' \<and>
        pointer_cache a' = pointer_cache a"
  proof (cases r1)
    case (Some e)
    with assms o1 f1 show ?thesis by (simp add: rewrite_archive_def)
  next
    case None
    note r1 = this
    show ?thesis
    proof (cases "pointer_file a1")
      case None
      with assms o1 r1 f1 show ?thesis by (simp add: rewrite_archive_def)
    next
      case (Some h)
      note h = this
      show ?thesis
      proof (cases "py_read h w1")
        case (Inl e)
        with assms o1 r1 h f1 show ?thesis by (simp add: rewrite_archive_def)
      next
        case (Inr t)
        note t = this
        let ?w2 = "py_close h w1"
        from f1(2) h have "\<not> prot (h_path (handles w1 ! h))" by (simp add: foreign_def)
        then have c2: "arch_frame prot w1 ?w2" by (simp add: py_close_frame)
        have e2: "arch_frame prot w ?w2" using f1(1) c2 by (rule arch_frame_trans)
        have fo2: "foreign prot a1 ?w2" using f1(2) c2 by (rule foreign_frame)
        show ?thesis
        proof (cases "apply_regexes E a1 (get_list ?w2 (archive_regexes a1)) t")
          case (Inl e)
          with assms o1 r1 h t e2 fo2 f1 show ?thesis
            by (simp add: rewrite_archive_def Let_def)
        next
          case (Inr t')
          note t' = this
          obtain r2 a2 w3 where o2: "open_archive None None ModeW (a1, ?w2) = (r2, a2, w3)"
            by (metis prod_cases3)
          note f2 = open_archive_frame [where prot = prot, OF o2 fo2]
          have e3: "arch_frame prot w w3" using e2 f2(1) by (rule arch_frame_trans)
          have s3: "same_ident a a2" using f1(3) f2(3) by (rule same_ident_trans)
          have pc3: "pointer_cache a2 = pointer_cache a" using f1(4) f2(4) by simp
          obtain r3 a3 w4 where wt: "write_text_body t' (a2, w3) = (r3, a3, w4)"
            by (metis prod_cases3)
          note f3 = write_text_body_frame [where prot = prot, OF wt f2(2)]
          have e4: "arch_frame prot w w4" using e3 f3(1) by (rule arch_frame_trans)
          have fo4: "foreign prot a2 w4" using f2(2) f3(1) by (rule foreign_frame)
          show ?thesis
          proof (cases r2)
            case (Some e)
            with assms o1 r1 h t t' o2 e3 f2 s3 pc3 show ?thesis
              by (simp add: rewrite_archive_def Let_def)
          next
            case None
            note r2 = this
            show ?thesis
            proof (cases r3)
              case (Some e)
              with assms o1 r1 h t t' o2 r2 wt f3 e4 fo4 s3 pc3 show ?thesis
                by (simp add: rewrite_archive_def Let_def)
            next
              case None
              note r3 = this
              show ?thesis
              proof (cases "pointer_file a2")
                case None
                with assms o1 r1 h t t' o2 r2 wt r3 f3 e4 fo4 s3 pc3 show ?thesis
                  by (simp add: rewrite_archive_def Let_def)
              next
                case (Some h')
                from fo4 Some have np: "\<not> prot (h_path (handles w4 ! h'))"
                  by (simp add: foreign_def)
                then have c5: "arch_frame prot w4 (py_close h' w4)" by (simp add: py_close_frame)
                have e5: "arch_frame prot w (py_close h' w4)"
                  using e4 c5 by (rule arch_frame_trans)
                have "foreign prot a2 (py_close h' w4)" using fo4 c5 by (rule foreign_frame)
                then have fo5: "foreign prot (a2\<lparr>pointer_file := None\<rparr>) (py_close h' w4)"
                  by (simp add: foreign_def archive_file_def)
                have s5: "same_ident a (a2\<lparr>pointer_file := None\<rparr>)"
                  using s3 by (simp add: same_ident_def)
                from assms o1 r1 h t t' o2 r2 wt r3 f3 Some e5 fo5 s5 pc3 show ?thesis
                  by (auto simp: rewrite_archive_def Let_def)
              qed
            qed
          qed
        qed
      qed
    qed
  qed
  then show "arch_frame prot w w'" and "foreign prot a' w'" and "same_ident a a'"
    and "pointer_cache a' = pointer_cache a" by simp_all
qed

lemma close_archive_frame:
  assumes "close_archive E (a, w) = (r, a', w')" and "foreign prot a w"
  shows "arch_frame prot w w'" and "foreign prot a' w'" and "same_ident a a'" and "r = None"
proof -
  have r: "r = None" using close_archive_no_raise [of E "(a, w)"] assms(1) by simp
  have "arch_frame prot w w' \<and> foreign prot a' w' \<and> same_ident a a'"
  proof (cases "is_root a")
    case False
    with assms show ?thesis by (simp add: close_archive_def arch_frame_refl same_ident_refl)
  next
    case True
    obtain a1 w1 where c: "(case pointer_cache a of Some c \<Rightarrow> (a\<lparr>pointer_cache := None\<rparr>, py_close c w)
                  | None \<Rightarrow> (a, w)) = (a1, w1)" by (metis surj_pair)
    have e1: "arch_frame prot w w1"
    proof (cases "pointer_cache a")
      case None
      with c show ?thesis by (simp add: arch_frame_refl)
    next
      case (Some k)
      with assms(2) have "\<not> prot (h_path (handles w ! k))" by (simp add: foreign_def)
      then have "arch_frame prot w (py_close k w)" by (simp add: py_close_frame)
      with c Some show ?thesis by simp
    qed
    have a1: "pointer_file a1 = pointer_file a" "ctx a1 = ctx a" "pointer_cache a1 = None"
      "target_regexes a1 = target_regexes a"
      using c by (auto split: option.splits)
    have "foreign prot a w1" using assms(2) e1 by (rule foreign_frame)
    with a1 have fo1: "foreign prot a1 w1" by (simp add: foreign_def archive_file_def)
    have s1: "same_ident a a1" using a1 by (simp add: same_ident_def)
    show ?thesis
    proof (cases "pointer_file a1")
      case None
      with assms True c e1 fo1 s1 show ?thesis by (simp add: close_archive_def Let_def)
    next
      case (Some h)
      let ?w2 = "py_close h w1" and ?a2 = "a1\<lparr>pointer_file := None\<rparr>"
      from fo1 Some have "\<not> prot (h_path (handles w1 ! h))" by (simp add: foreign_def)
      then have c2: "arch_frame prot w1 ?w2" by (simp add: py_close_frame)
      have e2: "arch_frame prot w ?w2" using e1 c2 by (rule arch_frame_trans)
      have "foreign prot a1 ?w2" using fo1 c2 by (rule foreign_frame)
      then have fo2: "foreign prot ?a2 ?w2" by (simp add: foreign_def archive_file_def)
      have s2: "same_ident a ?a2" using s1 by (simp add: same_ident_def)
      show ?thesis
      proof (cases "get_list ?w2 (archive_regexes ?a2) \<noteq> []")
        case False
        with assms True c Some e2 fo2 s2 show ?thesis by (auto simp: close_archive_def Let_def)
      next
        case nonempty: True
        obtain r4 a4 w4 where rw: "rewrite_archive E (?a2, ?w2) = (r4, a4, w4)"
          by (metis prod_cases3)
        note f4 = rewrite_archive_frame [where prot = prot, OF rw fo2]
        have e4: "arch_frame prot w w4" using e2 f4(1) by (rule arch_frame_trans)
        have s4: "same_ident a a4" using s2 f4(3) by (rule same_ident_trans)
        from assms True c Some nonempty rw e4 f4(2) s4 show ?thesis
          by (auto simp: close_archive_def Let_def)
      qed
    qed
  qed
  with r show "arch_frame prot w w'" and "foreign prot a' w'" and "same_ident a a'" and "r = None"
    by simp_all
qed

lemma write_text_frame:
  assumes "write_text E t cl (a, w) = (r, a', w')" and "foreign prot a w"
  shows "arch_frame prot w w'" and "foreign prot a' w'" and "same_ident a a'"
proof -
  obtain r1 a1 w1 where b: "write_text_body t (a, w) = (r1, a1, w1)" by (metis prod_cases3)
  note f1 = write_text_body_frame [where prot = prot, OF b assms(2)]
  have fo1: "foreign prot a w1" using assms(2) f1(1) by (rule foreign_frame)
  have "arch_frame prot w w' \<and> foreign prot a' w' \<and> same_ident a a'"
  proof (cases "r1 = None \<and> cl")
    case False
    with assms(1) b f1 fo1 show ?thesis
      by (auto simp: write_text_def same_ident_refl split: option.splits)
  next
    case True
    with assms(1) b f1 have c: "close_archive E (a, w1) = (r, a', w')"
      by (simp add: write_text_def)
    note f2 = close_archive_frame [where prot = prot, OF c fo1]
    from f1(1) f2(1) have "arch_frame prot w w'" by (rule arch_frame_trans)
    with f2 show ?thesis by simp
  qed
  then show "arch_frame prot w w'" and "foreign prot a' w'" and "same_ident a a'" by simp_all
qed

subsection \<open>Frame lemmas for targets and rule application\<close>

lemma arch_cmd_frame: "arch_frame prot w w' \<Longrightarrow> cmd_frame prot w w'"
  by (simp add: arch_frame_def cmd_frame_def)

lemma cmd_frame_refl: "cmd_frame prot w w"
  by (simp add: cmd_frame_def handles_extend_refl)

lemma cmd_frame_trans:
  assumes "cmd_frame prot w1 w2" and "cmd_frame prot w2 w3"
  shows "cmd_frame prot w1 w3"
proof -
  have e: "handles_extend w1 w3"
    using assms by (auto simp: cmd_frame_def intro: handles_extend_trans)
  have "handles w3 ! h = handles w1 ! h"
    if "h < length (handles w1)" "prot (h_path (handles w1 ! h))" for h
  proof -
    from assms(1) that have "handles w2 ! h = handles w1 ! h" "h < length (handles w2)"
      by (auto simp: cmd_frame_def handles_extend_def)
    with assms(2) that show ?thesis by (auto simp: cmd_frame_def)
  qed
  moreover have "\<exists>ys. lists w3 = lists w1 @ ys"
    using assms by (auto simp: cmd_frame_def)
  ultimately show ?thesis using e assms by (simp add: cmd_frame_def)
qed

lemma cmd_frame_same:
  "handles w' = handles w \<Longrightarrow> files w' = files w \<Longrightarrow> lists w' = lists w \<Longrightarrow>
   cmd_frame prot w w'"
  by (simp add: cmd_frame_def handles_extend_same)

lemma arch_frame_same:
  "handles w' = handles w \<Longrightarrow> files w' = files w \<Longrightarrow> trace w' = trace w \<Longrightarrow>
   poll_results w' = poll_results w \<Longrightarrow> lists w' = lists w \<Longrightarrow> arch_frame prot w w'"
  by (simp add: arch_frame_def handles_extend_same)

lemma foreign_cmd_frame:
  "foreign prot a w \<Longrightarrow> cmd_frame prot w w' \<Longrightarrow> foreign prot a w'"
  by (auto simp: cmd_frame_def intro: foreign_extend)

lemma foreign_ident:
  "foreign prot a w \<Longrightarrow> archive_file a' = archive_file a \<Longrightarrow>
   pointer_file a' = pointer_file a \<Longrightarrow> pointer_cache a' = pointer_cache a \<Longrightarrow>
   foreign prot a' w"
  by (simp add: foreign_def)

lemma write_targets_frame:
  assumes "write_targets E x ts (a, w) = (r, a', w')" and "foreign prot a w"
  shows "arch_frame prot w w' \<and> foreign prot a' w' \<and> same_ident a a'"
  using assms
proof (induction ts arbitrary: a w)
  case Nil
  then show ?case by (simp add: arch_frame_refl same_ident_refl)
next
  case (Cons t ts)
  let ?a1 = "if fst t \<noteq> [] then a\<lparr>ctx := (ctx a)\<lparr>target_path := fst t\<rparr>\<rparr> else a"
  let ?a2 = "if snd t \<noteq> [] then ?a1\<lparr>ctx := (ctx ?a1)\<lparr>target_name := snd t\<rparr>\<rparr> else ?a1"
  have s2: "same_ident a ?a2" by (simp add: same_ident_def)
  have fo2: "foreign prot ?a2 w"
    using Cons.prems(2) by (rule foreign_ident) (simp_all add: archive_file_def)
  show ?case
  proof (cases "get_text E (ctx ?a2) x")
    case (Inl e)
    with Cons.prems(1) fo2 s2 show ?thesis
      by (simp add: Let_def arch_frame_refl)
  next
    case (Inr tx)
    obtain r1 a3 w3 where wt: "write_text E (Str tx) False (?a2, w) = (r1, a3, w3)"
      by (metis prod_cases3)
    note f = write_text_frame [where prot = prot, OF wt fo2]
    have s3: "same_ident a a3" using s2 f(3) by (rule same_ident_trans)
    show ?thesis
    proof (cases r1)
      case (Some e)
      with Cons.prems(1) Inr wt f s3 show ?thesis by (simp add: Let_def)
    next
      case None
      with Cons.prems(1) Inr wt have rec: "write_targets E x ts (a3, w3) = (r, a', w')"
        by (simp add: Let_def)
      from Cons.IH [OF rec f(2)] f(1) s3 show ?thesis
        by (blast intro: arch_frame_trans same_ident_trans)
    qed
  qed
qed

lemma write_code_frame:
  assumes "write_code E x cl (a, w) = (r, a', w')" and "foreign prot a w"
  shows "arch_frame prot w w' \<and> foreign prot a' w' \<and> same_ident a a'"
proof (cases "get_attr E (ctx a) x ''target'' []")
  case (Inl e)
  with assms show ?thesis by (simp add: write_code_def arch_frame_refl same_ident_refl)
next
  case (Inr target)
  note tg = this
  show ?thesis
  proof (cases "list_targets E a target")
    case (Inl e)
    with assms tg show ?thesis by (simp add: write_code_def arch_frame_refl same_ident_refl)
  next
    case (Inr ts)
    obtain r1 a1 w1 where wt: "write_targets E x ts (a, w) = (r1, a1, w1)"
      by (metis prod_cases3)
    note f = write_targets_frame [where prot = prot, OF wt assms(2)]
    show ?thesis
    proof (cases "r1 = None \<and> cl")
      case False
      with assms(1) tg Inr wt f show ?thesis
        by (auto simp: write_code_def split: option.splits)
    next
      case True
      with assms(1) tg Inr wt have c: "close_archive E (a1, w1) = (r, a', w')"
        by (simp add: write_code_def)
      from f have fo1: "foreign prot a1 w1" by simp
      note f2 = close_archive_frame [where prot = prot, OF c fo1]
      from f f2 show ?thesis by (blast intro: arch_frame_trans same_ident_trans)
    qed
  qed
qed

lemma init_file_frame:
  assumes "ExporterArchive_init (File a) ap an w = (b, w1)"
  shows "w1 = w" and "pointer_file b = pointer_file a" and "pointer_cache b = pointer_cache a"
    and "archive_file b = (if ap \<noteq> [] then ap else archive_path (ctx a)) @
                           (if an \<noteq> [] then an else archive_name (ctx a))"
  using assms
  by (auto simp: ExporterArchive_init_def ExportContext_init_def archive_file_def Let_def
           split: if_splits)

lemma test_break_frame:
  "test_break w = (r, w1) \<Longrightarrow> arch_frame prot w w1"
  by (auto simp: test_break_def arch_frame_same split: list.splits)

lemma list_new_frame:
  "list_new xs w = (k, w1) \<Longrightarrow> arch_frame prot w w1"
  by (auto simp: list_new_def arch_frame_def handles_extend_refl handles_extend_same)

lemma regex_target_files_frame:
  assumes "regex_target_files E x ts (a, w) = (r, a', w')" and "foreign prot a w"
    and "\<forall>t \<in> set ts. \<not> prot ((if fst t \<noteq> [] then fst t else archive_path (ctx a)) @ snd t) \<and> snd t \<noteq> []"
  shows "arch_frame prot w w' \<and> a' = a"
  using assms
proof (induction ts arbitrary: w)
  case Nil
  then show ?case by (simp add: arch_frame_refl)
next
  case (Cons t ts)
  obtain r0 w1 where tb: "test_break w = (r0, w1)" by (metis surj_pair)
  note f1 = test_break_frame [where prot = prot, OF tb]
  show ?case
  proof (cases r0)
    case (Some e)
    with Cons.prems(1) tb f1 show ?thesis by (simp add: Let_def)
  next
    case None
    note r0 = this
    obtain ar w2 where i: "ExporterArchive_init (File a) (fst t) (snd t) w1 = (ar, w2)"
      by (metis surj_pair)
    note ii = init_file_frame [OF i]
    obtain k1 w3 where l1: "list_new [x] w2 = (k1, w3)" by (metis surj_pair)
    obtain k2 w4 where l2: "list_new [] w3 = (k2, w4)" by (metis surj_pair)
    let ?ar1 = "ar\<lparr>archive_regexes := k1, target_regexes := k2\<rparr>"
    have f4: "arch_frame prot w w4"
      using f1 ii(1) list_new_frame [where prot = prot, OF l1] list_new_frame [where prot = prot, OF l2]
      by (blast intro: arch_frame_trans)
    have "foreign prot a w4" using Cons.prems(2) f4 by (rule foreign_frame)
    moreover have "\<not> prot (archive_file ar)"
      using Cons.prems(3) ii(4) by simp
    ultimately have fo: "foreign prot ?ar1 w4"
      using ii(2,3) by (simp add: foreign_def archive_file_def)
    obtain r5 ar2 w5 where o: "open_archive None None ModeR (?ar1, w4) = (r5, ar2, w5)"
      by (metis prod_cases3)
    note f5 = open_archive_frame [where prot = prot, OF o fo]
    have e5: "arch_frame prot w w5" using f4 f5(1) by (rule arch_frame_trans)
    show ?thesis
    proof (cases r5)
      case (Some e)
      with Cons.prems(1) tb r0 i l1 l2 o e5 show ?thesis by (simp add: Let_def)
    next
      case None
      note r5 = this
      obtain r6 ar3 w6 where c: "close_archive E (ar2, w5) = (r6, ar3, w6)"
        by (metis prod_cases3)
      note f6 = close_archive_frame [where prot = prot, OF c f5(2)]
      have e6: "arch_frame prot w w6" using e5 f6(1) by (rule arch_frame_trans)
      from Cons.prems(1) tb r0 i l1 l2 o r5 c f6(4)
      have rec: "regex_target_files E x ts (a, w6) = (r, a', w')" by (simp add: Let_def)
      have fo6: "foreign prot a w6" using Cons.prems(2) e6 by (rule foreign_frame)
      from Cons.prems(3) have "\<forall>t \<in> set ts. \<not> prot ((if fst t \<noteq> [] then fst t else archive_path (ctx a)) @ snd t) \<and> snd t \<noteq> []"
        by simp
      from Cons.IH [OF rec fo6 this] e6 show ?thesis by (blast intro: arch_frame_trans)
    qed
  qed
qed

lemma regex_targets_frame:
  assumes "regex_targets E xs (a, w) = (r, a', w')" and "foreign prot a w"
    and "targets_foreign prot E"
  shows "arch_frame prot w w' \<and> a' = a"
  using assms
proof (induction xs arbitrary: w)
  case Nil
  then show ?case by (simp add: arch_frame_refl)
next
  case (Cons x xs)
  show ?case
  proof (cases "get_attr E (ctx a) x ''target'' []")
    case (Inl e)
    with Cons.prems(1) show ?thesis by (simp add: arch_frame_refl)
  next
    case (Inr target)
    note tg = this
    show ?thesis
    proof (cases "list_targets E a target")
      case (Inl e)
      with Cons.prems(1) tg show ?thesis by (simp add: arch_frame_refl)
    next
      case (Inr ts)
      let ?ts = "filter (\<lambda>t. snd t \<noteq> []) ts"
      have np: "\<forall>t \<in> set ?ts. \<not> prot ((if fst t \<noteq> [] then fst t else archive_path (ctx a)) @ snd t) \<and> snd t \<noteq> []"
        using Cons.prems(3) tg Inr unfolding targets_foreign_def by auto
      obtain r1 a1 w1 where rf: "regex_target_files E x ?ts (a, w) = (r1, a1, w1)"
        by (metis prod_cases3)
      from regex_target_files_frame [where prot = prot, OF rf Cons.prems(2) np]
      have f1: "arch_frame prot w w1" and a1: "a1 = a" by simp_all
      show ?thesis
      proof (cases r1)
        case (Some e)
        with Cons.prems(1) tg Inr rf f1 a1 show ?thesis by simp
      next
        case None
        with Cons.prems(1) tg Inr rf a1 have rec: "regex_targets E xs (a, w1) = (r, a', w')"
          by simp
        have "foreign prot a w1" using Cons.prems(2) f1 by (rule foreign_frame)
        from Cons.IH [OF rec this Cons.prems(3)] f1 show ?thesis
          by (blast intro: arch_frame_trans)
      qed
    qed
  qed
qed

lemma apply_regextargets_frame:
  assumes "apply_regextargets E (a, w) = (r, a', w')" and "foreign prot a w"
    and "targets_foreign prot E"
  shows "cmd_frame prot w w'" and "a' = a"
    and "trace w' = trace w @ [EvRegexTargets (archive_name (ctx a))]"
proof -
  let ?w0 = "w\<lparr>trace := trace w @ [EvRegexTargets (archive_name (ctx a))]\<rparr>"
  from assms(1) have rt: "regex_targets E (get_list w (target_regexes a)) (a, ?w0) = (r, a', w')"
    by (simp add: apply_regextargets_def)
  have c0: "cmd_frame prot w ?w0" by (simp add: cmd_frame_same)
  have "foreign prot a ?w0" using assms(2) c0 by (rule foreign_cmd_frame)
  from regex_targets_frame [where prot = prot, OF rt this assms(3)]
  have f: "arch_frame prot ?w0 w'" and a: "a' = a" by simp_all
  from c0 arch_cmd_frame [OF f] show "cmd_frame prot w w'" by (rule cmd_frame_trans)
  from a show "a' = a" .
  from f show "trace w' = trace w @ [EvRegexTargets (archive_name (ctx a))]"
    by (simp add: arch_frame_def)
qed

subsection \<open>Frame lemmas for commands\<close>

lemma same_cmd_refl: "same_cmd c c"
  by (simp add: same_cmd_def same_ident_refl)

lemma same_cmd_trans: "same_cmd a b \<Longrightarrow> same_cmd b c \<Longrightarrow> same_cmd a c"
  by (auto simp: same_cmd_def intro: same_ident_trans)

lemma build_code_frame:
  assumes "build_code E el cl (c, w) = (r, c', w')" and "foreign prot (arch c) w"
  shows "arch_frame prot w w' \<and> foreign prot (arch c') w' \<and> same_cmd c c'"
proof -
  obtain r1 a1 w1 where wc: "write_code E (command_xmlpath c @ ''/'' @ el) cl (arch c, w) = (r1, a1, w1)"
    by (metis prod_cases3)
  from write_code_frame [where prot = prot, OF wc assms(2)] assms(1) wc show ?thesis
    by (auto simp: build_code_def same_cmd_def)
qed

lemma build_all_frame:
  assumes "build_all E (c, w) = (r, c', w')" and "foreign prot (arch c) w"
  shows "arch_frame prot w w' \<and> foreign prot (arch c') w' \<and> same_cmd c c'"
proof -
  obtain r1 c1 w1 where b1: "build_code E ''begin'' False (c, w) = (r1, c1, w1)"
    by (metis prod_cases3)
  note f1 = build_code_frame [where prot = prot, OF b1 assms(2)]
  show ?thesis
  proof (cases r1)
    case (Some e)
    with assms(1) b1 f1 show ?thesis by (simp add: build_all_def)
  next
    case None
    note r1 = this
    obtain r2 c2 w2 where b2: "build_code E ''middle'' False (c1, w1) = (r2, c2, w2)"
      by (metis prod_cases3)
    from f1 have fo1: "foreign prot (arch c1) w1" by simp
    note f2 = build_code_frame [where prot = prot, OF b2 fo1]
    have g2: "arch_frame prot w w2 \<and> foreign prot (arch c2) w2 \<and> same_cmd c c2"
      using f1 f2 by (blast intro: arch_frame_trans same_cmd_trans)
    show ?thesis
    proof (cases r2)
      case (Some e)
      with assms(1) b1 r1 b2 g2 show ?thesis by (simp add: build_all_def)
    next
      case None
      with assms(1) b1 r1 b2 have b3: "build_code E ''end'' False (c2, w2) = (r, c', w')"
        by (simp add: build_all_def)
      from g2 have fo2: "foreign prot (arch c2) w2" by simp
      from build_code_frame [where prot = prot, OF b3 fo2] g2 show ?thesis
        by (blast intro: arch_frame_trans same_cmd_trans)
    qed
  qed
qed

lemma delayed_build_frame:
  assumes "delayed_build E (c, w) = (r, c', w')" and "foreign prot (arch c) w"
  shows "arch_frame prot w w' \<and> foreign prot (arch c') w' \<and> same_cmd c c'"
proof (cases "pointer_file (arch c)")
  case None
  with assms show ?thesis by (simp add: delayed_build_def arch_frame_refl same_cmd_refl)
next
  case (Some h)
  note h = this
  obtain r3 c3 w3 where b: "(if delay_build c then build_all E (c, w) else (None, c, w)) = (r3, c3, w3)"
    by (metis prod_cases3)
  have f3: "arch_frame prot w w3 \<and> foreign prot (arch c3) w3 \<and> same_cmd c c3"
  proof (cases "delay_build c")
    case False
    with b assms(2) show ?thesis by (simp add: arch_frame_refl same_cmd_refl)
  next
    case True
    with b have "build_all E (c, w) = (r3, c3, w3)" by simp
    then show ?thesis using assms(2) by (rule build_all_frame)
  qed
  have eq: "delayed_build E (c, w) =
     (case r3 of Some e \<Rightarrow> (Some e, c3, w3)
      | None \<Rightarrow> (case close_archive E (arch c3, w3) of (x, a4, w4) \<Rightarrow> (x, c3\<lparr>arch := a4\<rparr>, w4)))"
    unfolding delayed_build_def fst_conv h option.case b by (cases r3) simp_all
  show ?thesis
  proof (cases r3)
    case (Some e)
    with assms(1) eq f3 show ?thesis by simp
  next
    case None
    obtain r4 a4 w4 where cl: "close_archive E (arch c3, w3) = (r4, a4, w4)"
      by (metis prod_cases3)
    from f3 have fo3: "foreign prot (arch c3) w3" by simp
    note f4 = close_archive_frame [where prot = prot, OF cl fo3]
    from assms(1) eq None cl
    have res: "c' = c3\<lparr>arch := a4\<rparr>" "w' = w4" by simp_all
    have "same_cmd c (c3\<lparr>arch := a4\<rparr>)"
      using f3 f4(3) by (auto simp: same_cmd_def intro: same_ident_trans)
    with res f3 f4 show ?thesis by (auto intro: arch_frame_trans)
  qed
qed

lemma spawn_frame:
  assumes "spawn E (c, w) = (r, c', w')" and "foreign prot (arch c) w"
  shows "cmd_frame prot w w' \<and> foreign prot (arch c') w' \<and> same_cmd c c'"
proof -
  obtain r1 a1 w1 where cl: "close_archive E (arch c, w) = (r1, a1, w1)"
    by (metis prod_cases3)
  note f1 = close_archive_frame [where prot = prot, OF cl assms(2)]
  have c1: "cmd_frame prot w w1" using f1(1) by (rule arch_cmd_frame)
  let ?cmd = "archive_path (ctx a1) @ archive_name (ctx a1)"
  let ?wt = "w1\<lparr>trace := trace w1 @ [EvSpawn ?cmd]\<rparr>"
  have t: "cmd_frame prot w ?wt"
    using c1 by (simp add: cmd_frame_def handles_extend_def)
  have ft: "foreign prot a1 ?wt"
    using f1(2) by (simp add: foreign_def)
  have s: "same_cmd c (c\<lparr>arch := a1\<rparr>)" "same_cmd c (c\<lparr>arch := a1, command_process := p\<rparr>)" for p
    using f1(3) by (simp_all add: same_cmd_def)
  have eq: "spawn E (c, w) =
      (case popen E ?cmd True of
         Some pid \<Rightarrow> (None, c\<lparr>arch := a1, command_process := Some pid\<rparr>, ?wt)
       | None \<Rightarrow>
           (case popen E ?cmd False of
              Some pid \<Rightarrow> (None, c\<lparr>arch := a1, command_process := Some pid\<rparr>, ?wt)
            | None \<Rightarrow> (Some (RibmosaicError ''Could not execute command''), c\<lparr>arch := a1\<rparr>, w1)))"
    using cl f1(4) by (simp add: spawn_def Let_def)
  show ?thesis
  proof (cases "popen E ?cmd True")
    case (Some pid)
    with assms(1) eq have "c' = c\<lparr>arch := a1, command_process := Some pid\<rparr>" "w' = ?wt" by simp_all
    with t ft s show ?thesis by simp
  next
    case None
    note n1 = this
    show ?thesis
    proof (cases "popen E ?cmd False")
      case (Some pid)
      with assms(1) eq n1 have "c' = c\<lparr>arch := a1, command_process := Some pid\<rparr>" "w' = ?wt"
        by simp_all
      with t ft s show ?thesis by simp
    next
      case None
      with assms(1) eq n1 have "c' = c\<lparr>arch := a1\<rparr>" "w' = w1" by simp_all
      with c1 f1(2) s show ?thesis by simp
    qed
  qed
qed

lemma terminate_command_eq:
  "terminate_command E (c, w) =
     (None, c, (case command_process c of
                  None \<Rightarrow> w
                | Some pid \<Rightarrow> w\<lparr>trace := trace w @ signal_events E pid\<rparr>))"
proof (cases "command_process c")
  case None
  then show ?thesis
    by (simp add: terminate_command_def py_killpg_def py_terminate_def)
next
  case (Some pid)
  show ?thesis
  proof (cases "killpg_ok E pid")
    case True
    with Some show ?thesis
      by (simp add: terminate_command_def py_killpg_def signal_events_def)
  next
    case False
    with Some show ?thesis
      by (cases "terminate_ok E pid")
         (simp_all add: terminate_command_def py_killpg_def py_terminate_def signal_events_def)
  qed
qed

lemma terminate_command_world:
  assumes "terminate_command E (c, w) = (r, c', w')"
  shows "r = None" and "c' = c" and "files w' = files w" and "handles w' = handles w"
    and "poll_results w' = poll_results w" and "break_requests w' = break_requests w"
    and "lists w' = lists w"
proof -
  from assms have e: "r = None" "c' = c"
    "w' = (case command_process c of None \<Rightarrow> w
           | Some pid \<Rightarrow> w\<lparr>trace := trace w @ signal_events E pid\<rparr>)"
    unfolding terminate_command_eq by auto
  show "r = None" "c' = c" by (rule e)+
  show "files w' = files w" "handles w' = handles w" "poll_results w' = poll_results w"
    "break_requests w' = break_requests w" "lists w' = lists w"
    unfolding e(3) by (cases "command_process c"; simp)+
qed

lemma poll_loop_world:
  assumes "poll_loop E ps (c, w) = Some (c', w', rest)"
  shows "c' = c \<and> files w' = files w \<and> handles w' = handles w \<and> lists w' = lists w"
  using assms
proof (induction ps arbitrary: w)
  case Nil
  then show ?case by simp
next
  case (Cons p ps)
  show ?case
  proof (cases p)
    case (Some rc)
    with Cons.prems show ?thesis by simp
  next
    case None
    obtain r0 w1 where tb: "test_break w = (r0, w1)" by (metis surj_pair)
    then have w1: "files w1 = files w" "handles w1 = handles w" "lists w1 = lists w"
      by (auto simp: test_break_def split: list.splits)
    show ?thesis
    proof (cases r0)
      case None
      with Cons.prems \<open>p = None\<close> tb have "poll_loop E ps (c, w1) = Some (c', w', rest)" by simp
      from Cons.IH [OF this] w1 show ?thesis by simp
    next
      case (Some e)
      obtain r2 c2 w2 where tc: "terminate_command E (c, w1) = (r2, c2, w2)"
        by (metis prod_cases3)
      note t = terminate_command_world [OF tc]
      from Cons.prems \<open>p = None\<close> tb Some tc t(2)
      have "poll_loop E ps (c, w2) = Some (c', w', rest)" by simp
      from Cons.IH [OF this] w1 t show ?thesis by simp
    qed
  qed
qed

lemma poll_and_apply_frame:
  assumes "poll_and_apply E (c, w) = Some (r, c', w')" and "foreign prot (arch c) w"
    and "targets_foreign prot E"
  shows "cmd_frame prot w w' \<and> foreign prot (arch c') w' \<and> same_cmd c c'"
proof (cases "pointer_datablock (ctx (arch c))")
  case None
  with assms show ?thesis by (simp add: poll_and_apply_def cmd_frame_refl same_cmd_refl)
next
  case (Some sc)
  note sc = this
  show ?thesis
  proof (cases "ribmosaic_interactive sc")
    case True
    with assms sc show ?thesis by (simp add: poll_and_apply_def cmd_frame_refl same_cmd_refl)
  next
    case False
    show ?thesis
    proof (cases "poll_loop E (poll_results w) (c, w)")
      case None
      with assms(1) sc False show ?thesis by (simp add: poll_and_apply_def)
    next
      case (Some res)
      obtain c3 w3 ps where res: "res = (c3, w3, ps)" by (metis prod_cases3)
      with Some have pl: "poll_loop E (poll_results w) (c, w) = Some (c3, w3, ps)" by simp
      from poll_loop_world [OF pl]
      have p3: "c3 = c" "files w3 = files w" "handles w3 = handles w" "lists w3 = lists w"
        by simp_all
      let ?w3 = "w3\<lparr>poll_results := ps\<rparr>"
      have c3: "cmd_frame prot w ?w3" using p3 by (simp add: cmd_frame_same)
      have fo3: "foreign prot (arch c) ?w3" using assms(2) c3 by (rule foreign_cmd_frame)
      obtain r4 a4 w4 where ap: "apply_regextargets E (arch c, ?w3) = (r4, a4, w4)"
        by (metis prod_cases3)
      note f4 = apply_regextargets_frame [where prot = prot, OF ap fo3 assms(3)]
      from assms(1) sc False pl p3 ap
      have res: "c' = c\<lparr>arch := a4\<rparr>" "w' = w4"
        by (simp_all add: poll_and_apply_def)
      have "cmd_frame prot w w4"
        using c3 f4(1) by (rule cmd_frame_trans)
      moreover have "foreign prot (arch c) w4"
        using fo3 f4(1) by (rule foreign_cmd_frame)
      ultimately show ?thesis using res f4(2) by (simp add: same_cmd_def same_ident_refl)
    qed
  qed
qed

lemma execute_command_frame:
  assumes "execute_command E (c, w) = Some (r, c', w')" and "foreign prot (arch c) w"
    and "targets_foreign prot E"
  shows "cmd_frame prot w w' \<and> foreign prot (arch c') w' \<and> same_cmd c c'"
proof -
  obtain r1 c1 w1 where db: "delayed_build E (c, w) = (r1, c1, w1)" by (metis prod_cases3)
  from delayed_build_frame [where prot = prot, OF db assms(2)]
  have f1: "cmd_frame prot w w1" "foreign prot (arch c1) w1" "same_cmd c c1"
    by (simp_all add: arch_cmd_frame)
  show ?thesis
  proof (cases r1)
    case (Some e)
    with assms(1) db f1 show ?thesis by (simp add: execute_command_def)
  next
    case None
    note r1 = this
    show ?thesis
    proof (cases "execute_attribute E c1")
      case (Inl e)
      with assms(1) db r1 f1 show ?thesis by (simp add: execute_command_def)
    next
      case (Inr execute)
      note ex = this
      show ?thesis
      proof (cases execute)
        case False
        with assms(1) db r1 ex f1 show ?thesis by (simp add: execute_command_def)
      next
        case True
        obtain r2 c2 w2 where sp: "spawn E (c1, w1) = (r2, c2, w2)" by (metis prod_cases3)
        from spawn_frame [where prot = prot, OF sp f1(2)] f1
        have f2: "cmd_frame prot w w2" "foreign prot (arch c2) w2" "same_cmd c c2"
          by (blast intro: cmd_frame_trans same_cmd_trans)+
        show ?thesis
        proof (cases r2)
          case (Some e)
          with assms(1) db r1 ex True sp f2 show ?thesis by (simp add: execute_command_def)
        next
          case None
          with assms(1) db r1 ex True sp
          have pa: "poll_and_apply E (c2, w2) = Some (r, c', w')"
            by (simp add: execute_command_def)
          from poll_and_apply_frame [where prot = prot, OF pa f2(2) assms(3)] f2
          show ?thesis by (blast intro: cmd_frame_trans same_cmd_trans)
        qed
      qed
    qed
  qed
qed

subsection \<open>Cancelling a running command\<close>

lemmas eval_cmd_defs =
  build_command_def ExporterCommand_init_def build_code_def write_code_def list_targets_def
  execute_command_def delayed_build_def build_all_def execute_attribute_def spawn_def
  poll_and_apply_def test_break_def terminate_command_def py_killpg_def py_terminate_def
  apply_regextargets_def example_context_def render_scene_def example_scene_def

lemma render_command_example_eq:
  "render_command_example =
    Inr (\<lparr>arch =
           \<lparr>ctx = \<lparr>pointer_datablock = Some render_scene,
                    archive_path = ''./'', archive_name = ''RENDER_P00001_F00001_C00001'',
                    target_path = ''./Archives/'', target_name = ''P00001_F00001.rib''\<rparr>,
            is_root = True, is_gzip = False, is_exec = True, pointer_file = None,
            pointer_cache = None, archive_regexes = 2, target_regexes = 3\<rparr>,
          command_xmlpath = ''P/C/N'', command_process = None, delay_build = False\<rparr>,
         \<lparr>files = [''./RENDER_P00001_F00001_C00001'' \<mapsto> []],
          exec_bits = {''./RENDER_P00001_F00001_C00001''},
          handles =
            [\<lparr>h_path = ''./RENDER_P00001_F00001_C00001'', h_mode = ModeW, h_gzip = False,
               h_closed = True\<rparr>,
             \<lparr>h_path = ''./RENDER_P00001_F00001_C00001'', h_mode = ModeR, h_gzip = False,
               h_closed = True\<rparr>,
             \<lparr>h_path = ''./RENDER_P00001_F00001_C00001'', h_mode = ModeW, h_gzip = False,
               h_closed = True\<rparr>],
          lists = [[], [], [''P/C/N/regexes''], []], trace = [], poll_results = [],
          break_requests = []\<rparr>)"
  by (simp add: render_command_example_def eval_cmd_defs eval_defs Let_def)

text \<open>
  Claim C1, as stated, fails: in the example run a cancellation is requested while the
  process is running, the process group is signalled, and when the process has exited
  \<open>apply_regextargets\<close> is still invoked on the command's targets. The command
  carries no state that records the termination.
\<close>

theorem cancelled_run_applies_regextargets:
  "\<exists>x c' w'. cancelled_run = Some (x, c', w') \<and>
     trace w' = [EvSpawn ''./RENDER_P00001_F00001_C00001'', EvKillpg 7,
                 EvRegexTargets ''RENDER_P00001_F00001_C00001'']"
  by (simp add: cancelled_run_def render_command_example_eq)
     (simp add: eval_cmd_defs eval_defs Let_def)

lemma signals_simps:
  "signals E pid [] = []"
  "signals E pid (b # bs) = (if b then signal_events E pid else []) @ signals E pid bs"
  by (simp_all add: signals_def)

lemma poll_loop_trace:
  assumes "command_process c = Some pid"
  shows "poll_loop E (replicate n None @ Some rc # rest) (c, w) =
     Some (c, w\<lparr>trace := trace w @ signals E pid (take n (break_requests w)),
               break_requests := drop n (break_requests w)\<rparr>, rest)"
proof (induction n arbitrary: w)
  case 0
  show ?case by (simp add: signals_simps)
next
  case (Suc n)
  show ?case
  proof (cases "break_requests w")
    case Nil
    then have "test_break w = (None, w)" by (simp add: test_break_def)
    with Suc [of w] Nil show ?thesis by (simp add: signals_simps)
  next
    case (Cons b bs)
    let ?w1 = "w\<lparr>break_requests := bs\<rparr>"
    show ?thesis
    proof (cases b)
      case False
      with Cons have "test_break w = (None, ?w1)" by (simp add: test_break_def)
      with Suc [of ?w1] Cons False show ?thesis by (simp add: signals_simps)
    next
      case True
      with Cons have tb: "test_break w = (Some ExportCanceled, ?w1)" by (simp add: test_break_def)
      let ?w2 = "?w1\<lparr>trace := trace ?w1 @ signal_events E pid\<rparr>"
      have tc: "terminate_command E (c, ?w1) = (None, c, ?w2)"
        using assms by (simp add: terminate_command_eq)
      from tb tc Suc [of ?w2] Cons True show ?thesis by (simp add: signals_simps)
    qed
  qed
qed

lemma close_archive_closed:
  "pointer_file a = None \<Longrightarrow> pointer_cache a = None \<Longrightarrow> close_archive E (a, w) = (None, a, w)"
  by (simp add: close_archive_def)

text \<open>
  Claim C1, amended: for a command without open file whose \<open>execute\<close>
  attribute evaluates to true and whose process starts, in a scene that is not interactive,
  \<open>execute_command\<close> returns once the process has exited; at every poll where a
  cancellation is requested it calls \<open>terminate_command\<close> and goes on polling;
  and after the exit it invokes \<open>apply_regextargets\<close> exactly once, whether or
  not the process was terminated.
\<close>

theorem execute_command_applies_after_exit:
  assumes "pointer_file (arch c) = None" and "pointer_cache (arch c) = None"
    and "execute_attribute E c = Inr True"
    and "popen_pid E (archive_file (arch c)) = Some pid"
    and "pointer_datablock (ctx (arch c)) = Some sc" and "\<not> ribmosaic_interactive sc"
    and "poll_results w = replicate n None @ Some rc # rest"
  shows "\<exists>x w'. execute_command E (c, w) = Some (x, c\<lparr>command_process := Some pid\<rparr>, w') \<and>
           trace w' = trace w @ [EvSpawn (archive_file (arch c))] @
                      signals E pid (take n (break_requests w)) @
                      [EvRegexTargets (archive_name (ctx (arch c)))]"
proof -
  let ?c2 = "c\<lparr>command_process := Some pid\<rparr>"
  let ?w2 = "w\<lparr>trace := trace w @ [EvSpawn (archive_file (arch c))]\<rparr>"
  have db: "delayed_build E (c, w) = (None, c, w)"
    using assms(1) by (simp add: delayed_build_def)
  have sp: "spawn E (c, w) = (None, ?c2, ?w2)"
    using assms(1,2,4)
    by (auto simp: spawn_def close_archive_closed popen_pid_def archive_file_def Let_def
             split: option.splits)
  let ?w3 = "?w2\<lparr>trace := trace ?w2 @ signals E pid (take n (break_requests ?w2)),
               break_requests := drop n (break_requests ?w2)\<rparr>"
  have pl: "poll_loop E (poll_results ?w2) (?c2, ?w2) = Some (?c2, ?w3, rest)"
    using poll_loop_trace [of ?c2 pid E n rc rest ?w2] assms(7) by simp
  let ?w3' = "?w3\<lparr>poll_results := rest\<rparr>"
  obtain x a4 w4 where ap: "apply_regextargets E (arch ?c2, ?w3') = (x, a4, w4)"
    by (metis prod_cases3)
  have fo: "foreign (\<lambda>p. False) (arch ?c2) ?w3'"
    using assms(1,2) by (simp add: foreign_def)
  have tf: "targets_foreign (\<lambda>p. False) E" by (simp add: targets_foreign_def)
  note f = apply_regextargets_frame [where prot = "\<lambda>p. False", OF ap fo tf]
  have pa: "poll_and_apply E (?c2, ?w2) = Some (x, ?c2, w4)"
    using assms(5,6) pl ap f(2) by (simp add: poll_and_apply_def)
  have "execute_command E (c, w) = Some (x, ?c2, w4)"
    using db assms(3) sp pa by (simp add: execute_command_def)
  moreover have "trace w4 = trace w @ [EvSpawn (archive_file (arch c))] @
                      signals E pid (take n (break_requests w)) @
                      [EvRegexTargets (archive_name (ctx (arch c)))]"
    using f(3) by simp
  ultimately show ?thesis by blast
qed

text \<open>
  The amended statement of C1 at the example run.
\<close>

theorem execute_command_applies_after_exit_witness:
  "pointer_file (arch render_cmd) = None \<and> pointer_cache (arch render_cmd) = None \<and>
   execute_attribute example_env render_cmd = Inr True \<and>
   popen_pid example_env (archive_file (arch render_cmd)) = Some 7 \<and>
   poll_results render_world = replicate 2 None @ Some (- 15) # [] \<and>
   (\<exists>x w'. execute_command example_env (render_cmd, render_world)
              = Some (x, render_cmd\<lparr>command_process := Some 7\<rparr>, w') \<and>
            trace w' = [EvSpawn ''./RENDER_P00001_F00001_C00001'', EvKillpg 7,
                        EvRegexTargets ''RENDER_P00001_F00001_C00001''])"
proof -
  have h: "pointer_file (arch render_cmd) = None" "pointer_cache (arch render_cmd) = None"
    "execute_attribute example_env render_cmd = Inr True"
    "popen_pid example_env (archive_file (arch render_cmd)) = Some 7"
    "pointer_datablock (ctx (arch render_cmd)) = Some render_scene"
    "\<not> ribmosaic_interactive render_scene"
    "poll_results render_world = replicate 2 None @ Some (- 15) # []"
    by (simp_all add: render_cmd_def render_world_def render_command_example_eq
          execute_attribute_def popen_pid_def example_env_def example_attr_def example_eval_def
          render_scene_def example_scene_def numeral_2_eq_2)
  have e: "trace render_world = []" "break_requests render_world = [False, True, True]"
    "archive_file (arch render_cmd) = ''./RENDER_P00001_F00001_C00001''"
    "archive_name (ctx (arch render_cmd)) = ''RENDER_P00001_F00001_C00001''"
    "signals example_env 7 (take 2 [False, True, True]) = [EvKillpg 7]"
    by (simp_all add: render_cmd_def render_world_def render_command_example_eq archive_file_def
          signals_def signal_events_def example_env_def numeral_2_eq_2)
  from execute_command_applies_after_exit [OF h] h e show ?thesis by simp
qed

subsection \<open>Lines of the root shell script\<close>

lemma root_ready_frame:
  assumes "root_ready R w c" and "cmd_frame root_prot w w'"
  shows "root_ready R w' c"
proof -
  from assms(1) obtain H where H: "pointer_file (arch R) = Some H" "\<not> is_gzip (arch R)"
    "H < length (handles w)" "h_path (handles w ! H) = root_script"
    "h_mode (handles w ! H) = ModeA" "\<not> h_gzip (handles w ! H)" "\<not> h_closed (handles w ! H)"
    "files w root_script = Some c"
    unfolding root_ready_def by blast
  from assms(2) H(3,4) have "handles w' ! H = handles w ! H" "H < length (handles w')"
    "files w' root_script = files w root_script"
    by (auto simp: cmd_frame_def handles_extend_def)
  with H show ?thesis unfolding root_ready_def by auto
qed

lemma root_write:
  assumes "root_ready R w c" and "ln \<noteq> []"
  shows "\<exists>w'. write_text E (Str ln) False (arch R, w) = (None, arch R, w') \<and>
              root_ready R w' (c @ ln) \<and> handles w' = handles w \<and> lists w' = lists w"
proof -
  from assms(1) obtain H where H: "pointer_file (arch R) = Some H" "\<not> is_gzip (arch R)"
    "H < length (handles w)" "h_path (handles w ! H) = root_script"
    "h_mode (handles w ! H) = ModeA" "\<not> h_gzip (handles w ! H)" "\<not> h_closed (handles w ! H)"
    "files w root_script = Some c"
    unfolding root_ready_def by blast
  let ?w' = "w\<lparr>files := (files w)(root_script \<mapsto> c @ ln)\<rparr>"
  have "py_write H (Str ln) w = Inr ?w'"
    using H by (simp add: py_write_def Let_def)
  then have "write_text E (Str ln) False (arch R, w) = (None, arch R, ?w')"
    using H(1,2) assms(2) by (simp add: write_text_def write_text_body_def truthy_def)
  moreover have "root_ready R ?w' (c @ ln)"
    using H unfolding root_ready_def by auto
  ultimately show ?thesis by auto
qed

lemma invocation_line_same: "same_cmd s s' \<Longrightarrow> invocation_line s' = invocation_line s"
  by (simp add: same_cmd_def same_ident_def invocation_line_def)

lemma invocation_line_nonempty: "invocation_line s \<noteq> []"
  by (simp add: invocation_line_def)

lemma run_bucket_Cons:
  "run_bucket E sc t (s # ss) (R, w) =
     (case (if category_enabled sc t then execute_command E (s, w) else Some (None, s, w)) of
        None \<Rightarrow> None
      | Some (Some e, s1, w1) \<Rightarrow> Some (Some e, s1 # ss, R, w1)
      | Some (None, s1, w1) \<Rightarrow>
          (case (if t \<noteq> INFO
                 then write_text E (Str (invocation_line s1)) False (arch R, w1)
                 else (None, arch R, w1)) of
             (Some e, a2, w2) \<Rightarrow> Some (Some e, s1 # ss, R\<lparr>arch := a2\<rparr>, w2)
           | (None, a2, w2) \<Rightarrow>
               (case run_bucket E sc t ss (R\<lparr>arch := a2\<rparr>, w2) of
                  None \<Rightarrow> None
                | Some (x, ss', rw') \<Rightarrow> Some (x, s1 # ss', rw'))))"
  unfolding run_bucket.simps fst_conv snd_conv by (rule refl)

lemma run_bucket_lines:
  assumes "run_bucket E sc t ss (R, w) = Some (None, ss', R', w')"
    and "root_ready R w c" and "\<forall>s \<in> set ss. foreign root_prot (arch s) w"
    and "targets_foreign root_prot E"
  shows "R' = R \<and> cmd_frame (\<lambda>p. False) w w' \<and>
         root_ready R w' (c @ (if t \<noteq> INFO then concat (map invocation_line ss) else []))"
  using assms(1,2,3)
proof (induction ss arbitrary: w c ss')
  case Nil
  then show ?case by (simp add: cmd_frame_refl)
next
  case (Cons s ss)
  let ?first = "if category_enabled sc t then execute_command E (s, w) else Some (None, s, w)"
  note run = Cons.prems(1) [unfolded run_bucket_Cons]
  from run obtain s1 w1 where first: "?first = Some (None, s1, w1)"
    by (cases ?first) (auto split: option.splits prod.splits)
  from Cons.prems(3) have fs: "foreign root_prot (arch s) w" by simp
  have f1: "cmd_frame root_prot w w1 \<and> same_cmd s s1"
  proof (cases "category_enabled sc t")
    case True
    with first have "execute_command E (s, w) = Some (None, s1, w1)" by simp
    from execute_command_frame [where prot = root_prot, OF this fs assms(4)] show ?thesis
      by simp
  next
    case False
    with first show ?thesis by (simp add: cmd_frame_refl same_cmd_refl)
  qed
  have f1': "cmd_frame (\<lambda>p. False) w w1"
    using f1 by (simp add: cmd_frame_def)
  have rr1: "root_ready R w1 c" using Cons.prems(2) f1 by (blast intro: root_ready_frame)
  let ?ln = "if t \<noteq> INFO then invocation_line s else []"
  have "\<exists>w2. (if t \<noteq> INFO
               then write_text E (Str (invocation_line s1)) False (arch R, w1)
               else (None, arch R, w1)) = (None, arch R, w2) \<and>
              root_ready R w2 (c @ ?ln) \<and> handles w2 = handles w1 \<and> lists w2 = lists w1"
  proof (cases "t = INFO")
    case True
    with rr1 show ?thesis by simp
  next
    case False
    have ls: "invocation_line s1 = invocation_line s"
      using f1 by (simp add: invocation_line_same)
    from root_write [OF rr1 invocation_line_nonempty, of E s1] False show ?thesis
      unfolding ls by simp
  qed
  then obtain w2 where wr: "(if t \<noteq> INFO
               then write_text E (Str (invocation_line s1)) False (arch R, w1)
               else (None, arch R, w1)) = (None, arch R, w2)"
    and rr2: "root_ready R w2 (c @ ?ln)" and h2: "handles w2 = handles w1"
    and l2: "lists w2 = lists w1"
    by blast
  have f2: "cmd_frame (\<lambda>p. False) w w2"
    using f1' h2 l2 by (simp add: cmd_frame_def handles_extend_def)
  have RR: "R\<lparr>arch := arch R\<rparr> = R" by simp
  from run first wr RR obtain ss2 where
    rec: "run_bucket E sc t ss (R, w2) = Some (None, ss2, R', w')"
    by (auto split: option.splits prod.splits)
  have "\<forall>s \<in> set ss. foreign root_prot (arch s) w2"
    using Cons.prems(3) f2 by (auto simp: cmd_frame_def intro: foreign_extend)
  from Cons.IH [OF rec rr2 this] f2 show ?case
    by (auto intro: cmd_frame_trans)
qed

lemma run_categories_lines:
  assumes "run_categories E sc ts cs (R, w) = Some (None, cs', R', w')"
    and "root_ready R w c"
    and "\<forall>t \<in> set ts. \<forall>s \<in> set (cs t). foreign root_prot (arch s) w"
    and "targets_foreign root_prot E" and "distinct ts"
  shows "R' = R \<and> cmd_frame (\<lambda>p. False) w w' \<and>
         root_ready R w'
           (c @ concat (map (\<lambda>t. if t \<noteq> INFO then concat (map invocation_line (cs t)) else []) ts))"
  using assms(1,2,3,5)
proof (induction ts arbitrary: cs w c)
  case Nil
  then show ?case by (simp add: cmd_frame_refl)
next
  case (Cons t ts)
  from Cons.prems(1) obtain ss1 R1 w1 where
    rb: "run_bucket E sc t (cs t) (R, w) = Some (None, ss1, R1, w1)"
    by (auto split: option.splits prod.splits)
  from Cons.prems(3) have fo: "\<forall>s \<in> set (cs t). foreign root_prot (arch s) w" by simp
  let ?l = "\<lambda>cs t. if t \<noteq> INFO then concat (map invocation_line (cs t)) else []"
  from run_bucket_lines [OF rb Cons.prems(2) fo assms(4)]
  have R1: "R1 = R" and f1: "cmd_frame (\<lambda>p. False) w w1"
    and rr1: "root_ready R w1 (c @ ?l cs t)" by simp_all
  let ?cs2 = "if \<not> ribmosaic_interactive sc then cs(t := []) else cs(t := ss1)"
  from Cons.prems(1) rb R1 have rec: "run_categories E sc ts ?cs2 (R, w1) = Some (None, cs', R', w')"
    by simp
  from Cons.prems(4) have nt: "t \<notin> set ts" and d: "distinct ts" by simp_all
  have same: "?cs2 t' = cs t'" if "t' \<in> set ts" for t'
    using that nt by auto
  have fo2: "\<forall>t' \<in> set ts. \<forall>s \<in> set (?cs2 t'). foreign root_prot (arch s) w1"
  proof (intro ballI)
    fix t' s assume t': "t' \<in> set ts" and s: "s \<in> set (?cs2 t')"
    from s same [OF t'] have "s \<in> set (cs t')" by simp
    with Cons.prems(3) t' have "foreign root_prot (arch s) w" by simp
    with f1 show "foreign root_prot (arch s) w1"
      by (auto simp: cmd_frame_def intro: foreign_extend)
  qed
  have m: "map (?l ?cs2) ts = map (?l cs) ts"
    by (rule map_cong) (auto simp: same)
  from Cons.IH [OF rec rr1 fo2 d] f1 show ?case
    unfolding m by (auto intro: cmd_frame_trans)
qed

lemma root_init:
  assumes "get_list w class_archive_regexes = []"
  shows "\<exists>R w1. ExporterCommand_init E PyNone [] False ''./'' ''START.sh.bat'' ModeA w = Inr (R, w1) \<and>
           root_ready R w1 (case files w root_script of None \<Rightarrow> [] | Some c \<Rightarrow> c) \<and>
           handles_extend w w1 \<and> is_root (arch R) \<and> pointer_cache (arch R) = None \<and>
           archive_regexes (arch R) = length (lists w) \<and>
           length (lists w) < length (lists w1) \<and> lists w1 ! length (lists w) = []"
proof -
  obtain a w0 where i: "ExporterArchive_init PyNone ''./'' ''START.sh.bat'' w = (a, w0)"
    by (metis surj_pair)
  from i assms have a: "archive_regexes a = length (lists w)" "pointer_cache a = None"
    "\<not> is_gzip a" "archive_file a = root_script" "archive_name (ctx a) \<noteq> []"
    and w0: "handles w0 = handles w" "files w0 = files w"
      "length (lists w) < length (lists w0)" "lists w0 ! length (lists w) = []"
    by (auto simp: ExporterArchive_init_def ExportContext_init_def default_context_def
          list_copy_def list_new_def archive_file_def root_script_def Let_def nth_append
          split: prod.splits)
  obtain r a1 w1 where o: "open_archive None (Some True) ModeA (a, w0) = (r, a1, w1)"
    by (metis prod_cases3)
  have "r = None"
    using o a(5) by (auto simp: open_archive_def py_open_def new_handle_def Let_def
        split: option.splits)
  with o have o': "open_archive None (Some True) ModeA (a, w0) = (None, a1, w1)" by simp
  note ok = open_archive_succeeds [OF o']
  have rr: "root_ready \<lparr>arch = a1, command_xmlpath = [], command_process = None, delay_build = False\<rparr>
              w1 (case files w root_script of None \<Rightarrow> [] | Some c \<Rightarrow> c)"
    unfolding root_ready_def using ok(2,3,10,13) a(3,4) w0(1,2)
    by (auto split: option.splits)
  have he: "handles_extend w w1"
    using open_archive_extend [OF o] w0(1) by (simp add: handles_extend_def)
  have "ExporterCommand_init E PyNone [] False ''./'' ''START.sh.bat'' ModeA w =
        Inr (\<lparr>arch = a1, command_xmlpath = [], command_process = None, delay_build = False\<rparr>, w1)"
    using i o' by (simp add: ExporterCommand_init_def)
  with rr he ok(1,4,7,9) a(1,2) w0(3,4) show ?thesis by auto
qed

text \<open>
  Claim C2, amended: when no command raises during \<open>execute_commands\<close>, and
  neither the queued commands nor their targets touch the root script, the file
  \<open>START.sh.bat\<close> is extended by exactly one invocation line for every command of
  the OPTIMIZE, COMPILE, RENDER and POSTRENDER buckets, in this order, whether the command
  was executed or only queued. What the file held before is kept, and the commands of the
  INFO bucket get no line.
\<close>

theorem root_script_lines:
  assumes "get_list w class_archive_regexes = []"
    and "\<forall>t. \<forall>s \<in> set (command_scripts m t). foreign root_prot (arch s) w"
    and "targets_foreign root_prot E"
    and "ExporterCommand_init E PyNone [] False ''./'' ''START.sh.bat'' ModeA w = Inr rw"
    and "execute_commands_try E m rw = Some (None, cs', rw')"
  shows "\<exists>m' w'. execute_commands E (m, w) = Some (None, m', w') \<and>
           files w' root_script =
             Some ((case files w root_script of None \<Rightarrow> [] | Some c \<Rightarrow> c) @
                   concat (map invocation_line
                     (command_scripts m OPTIMIZE @ command_scripts m COMPILE @
                      command_scripts m RENDER @ command_scripts m POSTRENDER)))"
proof -
  let ?c0 = "case files w root_script of None \<Rightarrow> [] | Some c \<Rightarrow> c"
  from root_init [OF assms(1), of E] assms(4) obtain R w1 where rw: "rw = (R, w1)"
    and rr: "root_ready R w1 ?c0" and he: "handles_extend w w1"
    and R: "is_root (arch R)" "pointer_cache (arch R) = None"
      "archive_regexes (arch R) = length (lists w)"
    and l1: "length (lists w) < length (lists w1)" "lists w1 ! length (lists w) = []"
    by auto
  obtain R' w2 where rw': "rw' = (R', w2)" by (metis surj_pair)
  let ?ts = "[OPTIMIZE, COMPILE, INFO, RENDER, POSTRENDER]"
  from assms(5) rw rw'
  have run: "run_categories E (export_scene m) ?ts (command_scripts m) (R, w1)
               = Some (None, cs', R', w2)"
    by (simp add: execute_commands_try_def)
  have fo: "\<forall>t \<in> set ?ts. \<forall>s \<in> set (command_scripts m t). foreign root_prot (arch s) w1"
    using assms(2) he by (auto intro: foreign_extend)
  have d: "distinct ?ts" by simp
  let ?lines = "concat (map invocation_line
                     (command_scripts m OPTIMIZE @ command_scripts m COMPILE @
                      command_scripts m RENDER @ command_scripts m POSTRENDER))"
  from run_categories_lines [OF run rr fo assms(3) d]
  have R': "R' = R" and f2: "cmd_frame (\<lambda>p. False) w1 w2"
    and rr2: "root_ready R w2 (?c0 @ ?lines)"
    by simp_all
  from rr2 obtain H where H: "pointer_file (arch R) = Some H" "H < length (handles w2)"
    "files w2 root_script = Some (?c0 @ ?lines)"
    unfolding root_ready_def by blast
  from f2 obtain ys where "lists w2 = lists w1 @ ys" by (auto simp: cmd_frame_def)
  with l1 R(3) have g: "get_list (py_close H w2) (archive_regexes (arch R)) = []"
    by (simp add: py_close_fields get_list_def nth_append)
  have cl: "close_archive E (arch R, w2) = (None, (arch R)\<lparr>pointer_file := None\<rparr>, py_close H w2)"
    using R(1,2) H(1) g by (simp add: close_archive_def Let_def)
  have "execute_commands E (m, w) = Some (None, m\<lparr>command_scripts := cs'\<rparr>, py_close H w2)"
    using assms(4,5) rw rw' R' cl by (simp add: execute_commands_def)
  moreover have "files (py_close H w2) root_script = Some (?c0 @ ?lines)"
    using H(3) by (simp add: py_close_fields)
  ultimately show ?thesis by blast
qed

lemma info_command_example_eq:
  "info_command_example =
    Inr (\<lparr>arch =
           \<lparr>ctx = \<lparr>pointer_datablock = Some render_scene,
                    archive_path = ''./'', archive_name = ''INFO_S00001_C00001'',
                    target_path = ''./Archives/'', target_name = ''P00001_F00001.rib''\<rparr>,
            is_root = True, is_gzip = False, is_exec = True, pointer_file = Some 3,
            pointer_cache = None, archive_regexes = 4, target_regexes = 5\<rparr>,
          command_xmlpath = ''P/C/N'', command_process = None, delay_build = True\<rparr>,
         \<lparr>files = [''./RENDER_P00001_F00001_C00001'' \<mapsto> [], ''./INFO_S00001_C00001'' \<mapsto> []],
          exec_bits = {''./INFO_S00001_C00001'', ''./RENDER_P00001_F00001_C00001''},
          handles =
            [\<lparr>h_path = ''./RENDER_P00001_F00001_C00001'', h_mode = ModeW, h_gzip = False,
               h_closed = True\<rparr>,
             \<lparr>h_path = ''./RENDER_P00001_F00001_C00001'', h_mode = ModeR, h_gzip = False,
               h_closed = True\<rparr>,
             \<lparr>h_path = ''./RENDER_P00001_F00001_C00001'', h_mode = ModeW, h_gzip = False,
               h_closed = True\<rparr>,
             \<lparr>h_path = ''./INFO_S00001_C00001'', h_mode = ModeW, h_gzip = False,
               h_closed = False\<rparr>],
          lists = [[], [], [''P/C/N/regexes''], [], [''P/C/N/regexes''], []], trace = [],
          poll_results = [], break_requests = []\<rparr>)"
  by (simp add: info_command_example_def render_command_example_eq)
     (simp add: eval_cmd_defs eval_defs Let_def)

lemma root_script_example:
  "ExporterCommand_init example_env PyNone [] False ''./'' ''START.sh.bat'' ModeA manager_world =
    Inr (\<lparr>arch =
           \<lparr>ctx = \<lparr>pointer_datablock = None, archive_path = ''./'',
                    archive_name = ''START.sh.bat'', target_path = [], target_name = []\<rparr>,
            is_root = True, is_gzip = False, is_exec = True, pointer_file = Some 4,
            pointer_cache = None, archive_regexes = 6, target_regexes = 7\<rparr>,
          command_xmlpath = [], command_process = None, delay_build = False\<rparr>,
         manager_world
           \<lparr>files := (files manager_world)(''./START.sh.bat'' \<mapsto> []),
            handles := handles manager_world @
              [\<lparr>h_path = ''./START.sh.bat'', h_mode = ModeA, h_gzip = False, h_closed = False\<rparr>],
            lists := lists manager_world @ [[], []],
            exec_bits := insert ''./START.sh.bat'' (exec_bits manager_world)\<rparr>)"
  by (simp add: manager_world_def info_command_example_eq)
     (simp add: eval_cmd_defs eval_defs Let_def)

lemma example_try:
  "\<exists>cs' rw'. execute_commands_try example_env example_manager
      (projr (ExporterCommand_init example_env PyNone [] False ''./'' ''START.sh.bat'' ModeA
                manager_world)) = Some (None, cs', rw')"
  by (simp add: root_script_example)
     (simp add: execute_commands_try_def example_manager_def manager_world_def
        info_command_example_eq render_command_example_eq category_enabled_def
        render_scene_def example_scene_def invocation_line_def
        eval_cmd_defs eval_defs Let_def)

text \<open>
  Claim C2, as stated, fails: the example manager holds an INFO command, which
  \<open>execute_commands\<close> runs, and the root script written holds the line of the
  RENDER command only.
\<close>

theorem info_command_gets_no_line:
  "command_scripts example_manager INFO = [fst (projr info_command_example)] \<and>
   (\<exists>m' w'. execute_commands example_env (example_manager, manager_world) = Some (None, m', w') \<and>
      trace w' = [EvSpawn ''./INFO_S00001_C00001'', EvRegexTargets ''INFO_S00001_C00001'',
                  EvSpawn ''./RENDER_P00001_F00001_C00001'',
                  EvRegexTargets ''RENDER_P00001_F00001_C00001''] \<and>
      files w' ''./START.sh.bat'' = Some (''./RENDER_P00001_F00001_C00001'' @ [CHR 0x0A]))"
  by (simp add: example_manager_def execute_commands_def root_script_example)
     (simp add: execute_commands_try_def example_manager_def manager_world_def
        info_command_example_eq render_command_example_eq category_enabled_def
        render_scene_def example_scene_def invocation_line_def
        eval_cmd_defs eval_defs Let_def)

lemma example_targets_foreign: "targets_foreign root_prot example_env"
  by (auto simp: targets_foreign_def example_env_def example_attr_def list_targets_def)

text \<open>
  The amended statement of C2 at the example manager.
\<close>

theorem root_script_lines_witness:
  "get_list manager_world class_archive_regexes = [] \<and>
   targets_foreign root_prot example_env \<and>
   (\<exists>m' w'. execute_commands example_env (example_manager, manager_world) = Some (None, m', w') \<and>
      files w' root_script = Some (''./RENDER_P00001_F00001_C00001'' @ [CHR 0x0A]))"
proof -
  have h1: "get_list manager_world class_archive_regexes = []"
    by (simp add: manager_world_def info_command_example_eq get_list_def
          class_archive_regexes_def)
  have h2: "\<forall>t. \<forall>s \<in> set (command_scripts example_manager t). foreign root_prot (arch s) manager_world"
    by (simp add: example_manager_def manager_world_def info_command_example_eq
          render_command_example_eq foreign_def archive_file_def root_script_def)
  have h4: "ExporterCommand_init example_env PyNone [] False ''./'' ''START.sh.bat'' ModeA manager_world
     = Inr (projr (ExporterCommand_init example_env PyNone [] False ''./'' ''START.sh.bat'' ModeA
                manager_world))"
    by (simp add: root_script_example)
  from example_try obtain cs' rw' where h5: "execute_commands_try example_env example_manager
      (projr (ExporterCommand_init example_env PyNone [] False ''./'' ''START.sh.bat'' ModeA
                manager_world)) = Some (None, cs', rw')" by blast
  have f: "files manager_world root_script = None"
    by (simp add: manager_world_def info_command_example_eq root_script_def)
  have l: "invocation_line (fst (projr render_command_example))
            = ''./RENDER_P00001_F00001_C00001'' @ [CHR 0x0A]"
    by (simp add: render_command_example_eq invocation_line_def)
  from root_script_lines [OF h1 h2 example_targets_foreign h4 h5] f l h1 example_targets_foreign
  show ?thesis by (simp add: example_manager_def)
qed

end
